theory Spec2Isabelle
  imports Main "HOL-Library.List_Lexorder" "HOL-Library.Char_ord"
begin

section \<open>Python values, class objects and the object store\<close>

text \<open>
  The program is \<^verbatim>\<open>locations/automatic_spider_generator.py\<close>: the class
  \<^verbatim>\<open>AutomaticSpiderGenerator\<close> with its two static rendering methods, its two default
  protocol methods and the class-creation hook \<^verbatim>\<open>__init_subclass__\<close>.

  The values of the model are the kinds of values that the attributes of spider classes
  and the keyword arguments of their declarations hold. The values of one kind behave
  alike under the operations that the code applies to them (\<^verbatim>\<open>is not None\<close>,
  \<^verbatim>\<open>isinstance(v, dict)\<close>, \<^verbatim>\<open>isinstance(v, str)\<close>, \<^verbatim>\<open>hasattr(v, "__len__")\<close>,
  truthiness, iteration, \<^verbatim>\<open>items\<close>, item assignment):
  \<^item> \<open>PNone\<close>, \<open>PBool\<close>, \<open>PInt\<close>: \<^verbatim>\<open>None\<close>, booleans and integers (no \<^verbatim>\<open>__len__\<close>);
  \<^item> \<open>PStr\<close>: a \<^verbatim>\<open>str\<close>, as the list of the bytes of its UTF-8 encoding (the
    lexicographic order of these lists is the order of Python's code points);
  \<^item> \<open>PDict\<close>: a \<^verbatim>\<open>dict\<close>, held by reference: the address of its entries in the heap.
    Dictionaries are string-keyed, as keyword arguments, class namespaces and the
    attribute records of the generator are;
  \<^item> \<open>PSeq\<close>: a \<^verbatim>\<open>list\<close> or a \<^verbatim>\<open>tuple\<close>, as the list of its elements; it is iterated
    in this order;
  \<^item> \<open>PSet\<close>: a \<^verbatim>\<open>set\<close> or a \<^verbatim>\<open>frozenset\<close>, as the list of its (distinct) elements in
    the order in which they were inserted. The order in which it is iterated is not
    this one: it follows the hashes of the elements, and the hash of a string is salted
    per interpreter process (\<^verbatim>\<open>PYTHONHASHSEED\<close>). The store holds the iteration order
    of its process;
  \<^item> \<open>PType\<close>: the class object \<^verbatim>\<open>list\<close> or \<^verbatim>\<open>tuple\<close> itself:
    \<^verbatim>\<open>hasattr(v, "__len__")\<close> holds (the attribute is found on the class), but the
    object is not iterable, has no method \<^verbatim>\<open>items\<close> and supports no item assignment;
  \<^item> \<open>PObj\<close>: a function, a static method or a class method: an object without
    \<^verbatim>\<open>__len__\<close>, with a true truth value, no method \<^verbatim>\<open>items\<close> and no item assignment.
\<close>

type_synonym addr = nat

type_synonym cid = nat

datatype pyval =
    PNone
  | PBool bool
  | PInt int
  | PStr string
  | PDict addr
  | PSeq "pyval list"
  | PSet "pyval list"
  | PType
  | PObj

text \<open>A dictionary keeps its entries in insertion order; its keys are distinct.\<close>

type_synonym pydict = "(string \<times> pyval) list"

datatype error = TypeError | AttributeError | ValueError

text \<open>
  A class object (an instance of the metaclass \<^verbatim>\<open>type\<close>): what \<^verbatim>\<open>__name__\<close>,
  \<^verbatim>\<open>__module__\<close> and \<^verbatim>\<open>__bases__\<close> evaluate to, the ancestors that follow the class in
  its \<^verbatim>\<open>__mro__\<close>, and the class's own namespace \<^verbatim>\<open>vars(cls)\<close>. The name of a class is
  always a string; its module is one unless it has been assigned another value.
\<close>

record pyclass =
  cls_name :: string
  cls_module :: pyval
  cls_bases :: "cid list"
  cls_ancestors :: "cid list"
  cls_dict :: pydict

text \<open>
  The store: the class objects by identity, the dictionaries by address, and the next
  unused address; and two functions of the interpreter process that runs the program,
  which the program reads and never changes. \<open>set_order\<close> gives the order in which
  this process iterates a set, from the elements in insertion order. \<open>format_text\<close>
  gives the text that \<^verbatim>\<open>str.format\<close> substitutes for a value that is not a string (the
  result of its \<^verbatim>\<open>__format__\<close>, which may depend on the entries of the dictionaries).
\<close>

record pystate =
  classes :: "cid \<Rightarrow> pyclass"
  heap :: "addr \<Rightarrow> pydict"
  next_addr :: addr
  set_order :: "pyval list \<Rightarrow> pyval list"
  format_text :: "(addr \<Rightarrow> pydict) \<Rightarrow> pyval \<Rightarrow> string"

abbreviation NL :: char where
  "NL \<equiv> CHR 0x0A"

abbreviation TAB :: char where
  "TAB \<equiv> CHR 0x09"

abbreviation DQ :: char where
  "DQ \<equiv> CHR 0x22"

subsection \<open>Dictionary and string primitives\<close>

text \<open>\<^verbatim>\<open>d[k] = v\<close>: an existing key keeps its position, a new key goes last.\<close>

fun dict_setitem :: "(string \<times> 'v) list \<Rightarrow> string \<Rightarrow> 'v \<Rightarrow> (string \<times> 'v) list" where
  "dict_setitem [] k v = [(k, v)]"
| "dict_setitem ((k', v') # d) k v =
     (if k' = k then (k, v) # d else (k', v') # dict_setitem d k v)"

text \<open>\<^verbatim>\<open>d.update(items)\<close>, and \<^verbatim>\<open>dict(items)\<close> or a dict comprehension over \<open>items\<close>.\<close>

fun dict_update :: "(string \<times> 'v) list \<Rightarrow> (string \<times> 'v) list \<Rightarrow> (string \<times> 'v) list" where
  "dict_update d [] = d"
| "dict_update d ((k, v) # items) = dict_update (dict_setitem d k v) items"

definition dict_from :: "(string \<times> 'v) list \<Rightarrow> (string \<times> 'v) list" where
  "dict_from items = dict_update [] items"

text \<open>
  \<^verbatim>\<open>[(k, d[k]) for k in keys if k in d]\<close>: the entries of \<open>d\<close> at the given keys, in the
  order of the keys.
\<close>

fun select_items :: "(string \<times> 'v) list \<Rightarrow> string list \<Rightarrow> (string \<times> 'v) list" where
  "select_items d [] = []"
| "select_items d (k # ks) =
     (case map_of d k of
        Some v \<Rightarrow> (k, v) # select_items d ks
      | None \<Rightarrow> select_items d ks)"

definition startswith :: "string \<Rightarrow> string \<Rightarrow> bool" where
  "startswith s p = (take (length p) s = p)"

text \<open>\<^verbatim>\<open>sep.join(xs)\<close>.\<close>

fun join :: "string \<Rightarrow> string list \<Rightarrow> string" where
  "join sep [] = []"
| "join sep [x] = x"
| "join sep (x # y # ys) = x @ sep @ join sep (y # ys)"

text \<open>
  The text that a replacement field \<^verbatim>\<open>{}\<close> of \<^verbatim>\<open>str.format\<close> gets for the value \<open>v\<close>: a
  string as it is.
\<close>

definition format_value :: "pystate \<Rightarrow> pyval \<Rightarrow> string" where
  "format_value st v = (case v of PStr s \<Rightarrow> s | _ \<Rightarrow> format_text st (heap st) v)"

section \<open>The code synthesizer\<close>

subsection \<open>\<^verbatim>\<open>generate_spider_attributes_code\<close>\<close>

text \<open>Lines 58 to 60: the loop over the entries of a dictionary-valued attribute.\<close>

fun render_dict_items :: "string \<Rightarrow> pydict \<Rightarrow> string" where
  "render_dict_items code [] = code"
| "render_dict_items code ((k2, v2) # items) =
     render_dict_items
       (case v2 of
          PStr s \<Rightarrow> code @ [NL, TAB, TAB] @ k2 @ '' = '' @ [DQ] @ s @ [DQ] @ '',''
        | _ \<Rightarrow> code)
       items"

text \<open>Lines 66 to 68: the loop over the elements of a sized attribute value.\<close>

fun render_seq_items :: "string \<Rightarrow> pyval list \<Rightarrow> string" where
  "render_seq_items code [] = code"
| "render_seq_items code (v2 # vs) =
     render_seq_items
       (case v2 of
          PStr s \<Rightarrow> code @ [NL, TAB, TAB] @ [DQ] @ s @ [DQ] @ '',''
        | _ \<Rightarrow> code)
       vs"

text \<open>
  Lines 56 to 69: the body of the loop over the attributes. The branch of line 64 is
  taken by every value that has \<^verbatim>\<open>__len__\<close>; it writes the opening line and then
  iterates: a list or tuple in the order of its elements, a set in the order of the
  process, and a value that is not iterable raises \<^verbatim>\<open>TypeError\<close>.
\<close>

fun render_attribute :: "pystate \<Rightarrow> string \<Rightarrow> string \<times> pyval \<Rightarrow> error + string" where
  "render_attribute st code (k, v) =
     (case v of
        PDict a \<Rightarrow>
          Inr (render_dict_items (code @ [NL, TAB] @ k @ '' = {'') (heap st a) @ [NL, TAB] @ ''}'')
      | PStr s \<Rightarrow> Inr (code @ [NL, TAB] @ k @ '' = '' @ [DQ] @ s @ [DQ])
      | PSeq vs \<Rightarrow>
          Inr (render_seq_items (code @ [NL, TAB] @ k @ '' = ['') vs @ [NL, TAB] @ '']'')
      | PSet vs \<Rightarrow>
          Inr (render_seq_items (code @ [NL, TAB] @ k @ '' = ['') (set_order st vs)
               @ [NL, TAB] @ '']'')
      | PType \<Rightarrow> Inl TypeError
      | _ \<Rightarrow> Inr code)"

text \<open>Line 55: the loop itself; an exception ends it.\<close>

fun render_attributes :: "pystate \<Rightarrow> string \<Rightarrow> pydict \<Rightarrow> error + string" where
  "render_attributes st code [] = Inr code"
| "render_attributes st code (kv # items) =
     (case render_attribute st code kv of
        Inl e \<Rightarrow> Inl e
      | Inr code' \<Rightarrow> render_attributes st code' items)"

text \<open>Line 33: the default of the parameter \<^verbatim>\<open>sort_order\<close>.\<close>

definition default_sort_order :: "string list" where
  "default_sort_order = [''name'', ''item_attributes'', ''allowed_domains'', ''start_urls'']"

text \<open>Line 50: the public attributes of \<^verbatim>\<open>vars(spider)\<close> that are not \<^verbatim>\<open>None\<close>.\<close>

definition spider_attributes :: "pydict \<Rightarrow> pydict" where
  "spider_attributes vs = dict_from (filter (\<lambda>(k, v). \<not> startswith k ''_'' \<and> v \<noteq> PNone) vs)"

text \<open>
  Lines 51 to 54. \<^verbatim>\<open>sorted\<close> compares the (key, value) pairs; the keys of a dictionary
  are distinct, so the comparison of two pairs is decided by their keys.
\<close>

definition spider_attributes_sorted :: "string list \<Rightarrow> pydict \<Rightarrow> pydict" where
  "spider_attributes_sorted sort_order attrs =
     dict_update
       (dict_from (select_items attrs sort_order))
       (dict_from
          (select_items attrs
             (filter (\<lambda>k. k \<notin> set sort_order) (map fst (dict_from (sort_key fst attrs))))))"

definition generate_spider_attributes_code :: "pystate \<Rightarrow> cid \<Rightarrow> string list \<Rightarrow> error + string" where
  "generate_spider_attributes_code st spider sort_order =
     render_attributes st []
       (spider_attributes_sorted sort_order (spider_attributes (cls_dict (classes st spider))))"

subsection \<open>\<^verbatim>\<open>generate_spider_code\<close>\<close>

text \<open>Lines 18 to 20: the loop over \<^verbatim>\<open>spider.__bases__\<close>.\<close>

fun bases_loop :: "pystate \<Rightarrow> string \<times> string list \<Rightarrow> cid list \<Rightarrow> string \<times> string list" where
  "bases_loop st (imports_list, superclasses) [] = (imports_list, superclasses)"
| "bases_loop st (imports_list, superclasses) (spider_base # bases) =
     bases_loop st
       (imports_list @ ''from '' @ format_value st (cls_module (classes st spider_base))
          @ '' import '' @ cls_name (classes st spider_base) @ [NL],
        superclasses @ [cls_name (classes st spider_base)])
       bases"

definition generate_spider_code :: "pystate \<Rightarrow> cid \<Rightarrow> error + string" where
  "generate_spider_code st spider =
     (case bases_loop st ([], []) (cls_bases (classes st spider)) of
        (imports_list, superclasses) \<Rightarrow>
          (case generate_spider_attributes_code st spider default_sort_order of
             Inl e \<Rightarrow> Inl e
           | Inr attributes_code \<Rightarrow>
               Inr (imports_list @ [NL, NL] @ ''class '' @ cls_name (classes st spider) @ ''(''
                    @ join '', '' superclasses @ ''):'' @ attributes_code)))"

section \<open>The declaration hook \<^verbatim>\<open>__init_subclass__\<close>\<close>

subsection \<open>Attribute access on class objects\<close>

text \<open>\<^verbatim>\<open>bool(v)\<close>, as the conditions of lines 136 to 153 evaluate it.\<close>

fun truthy :: "pystate \<Rightarrow> pyval \<Rightarrow> bool" where
  "truthy st PNone = False"
| "truthy st (PBool b) = b"
| "truthy st (PInt i) = (i \<noteq> 0)"
| "truthy st (PStr s) = (s \<noteq> [])"
| "truthy st (PDict a) = (heap st a \<noteq> [])"
| "truthy st (PSeq vs) = (vs \<noteq> [])"
| "truthy st (PSet vs) = (vs \<noteq> [])"
| "truthy st PType = True"
| "truthy st PObj = True"

text \<open>
  \<^verbatim>\<open>getattr(cls, name)\<close> for a name that the metaclass \<^verbatim>\<open>type\<close> does not define itself
  (the hook reads \<^verbatim>\<open>item_attributes\<close> only): the first namespace along the method
  resolution order that holds the name, the class's own namespace first.
\<close>

fun lookup_classes :: "pystate \<Rightarrow> cid list \<Rightarrow> string \<Rightarrow> pyval option" where
  "lookup_classes st [] name = None"
| "lookup_classes st (c # cs) name =
     (case map_of (cls_dict (classes st c)) name of
        Some v \<Rightarrow> Some v
      | None \<Rightarrow> lookup_classes st cs name)"

definition class_getattr :: "pystate \<Rightarrow> cid \<Rightarrow> string \<Rightarrow> pyval option" where
  "class_getattr st cls name = lookup_classes st (cls # cls_ancestors (classes st cls)) name"

definition class_hasattr :: "pystate \<Rightarrow> cid \<Rightarrow> string \<Rightarrow> bool" where
  "class_hasattr st cls name = (class_getattr st cls name \<noteq> None)"

text \<open>The store in which the own namespace of the class \<open>cls\<close> has the entry \<open>name = v\<close>.\<close>

definition namespace_store :: "pystate \<Rightarrow> cid \<Rightarrow> string \<Rightarrow> pyval \<Rightarrow> pystate" where
  "namespace_store st cls name v =
     st\<lparr>classes := (classes st)
           (cls := (classes st cls)\<lparr>cls_dict := dict_setitem (cls_dict (classes st cls)) name v\<rparr>)\<rparr>"

text \<open>
  The names for which \<^verbatim>\<open>type\<close> has a data descriptor without a setter: assigning to
  them raises \<^verbatim>\<open>AttributeError\<close>.
\<close>

definition readonly_attributes :: "string list" where
  "readonly_attributes =
     [''__base__'', ''__basicsize__'', ''__dict__'', ''__dictoffset__'', ''__flags__'',
      ''__itemsize__'', ''__mro__'', ''__text_signature__'', ''__weakrefoffset__'']"

text \<open>
  \<^verbatim>\<open>setattr(cls, name, v)\<close> and \<^verbatim>\<open>cls.name = v\<close> on a class object, that is
  \<^verbatim>\<open>type.__setattr__\<close> (CPython 3.11). A name for which \<^verbatim>\<open>type\<close> or \<^verbatim>\<open>object\<close> defines a
  data descriptor is handled by the descriptor:
  \<^item> the read-only names raise \<^verbatim>\<open>AttributeError\<close>;
  \<^item> \<^verbatim>\<open>__bases__\<close> takes a tuple of classes and \<^verbatim>\<open>__class__\<close> a metaclass whose layout
    fits the class; no value of \<open>pyval\<close> is one (the layout of \<^verbatim>\<open>list\<close> and \<^verbatim>\<open>tuple\<close>
    is not that of a class defined by a class statement), so both raise \<^verbatim>\<open>TypeError\<close>;
  \<^item> \<^verbatim>\<open>__name__\<close> takes a string without a null character and renames the class; no
    entry is written to the namespace;
  \<^item> \<^verbatim>\<open>__qualname__\<close> takes a string and sets the qualified name, which is not a part
    of \<open>pyclass\<close> (no function of the program reads it); no entry is written;
  \<^item> \<^verbatim>\<open>__module__\<close> takes any value and writes it to the namespace, where
    \<^verbatim>\<open>cls.__module__\<close> reads it.

  Every other name (among them \<^verbatim>\<open>__doc__\<close>, \<^verbatim>\<open>__annotations__\<close>,
  \<^verbatim>\<open>__abstractmethods__\<close> and the names of the special methods) is written to the own
  namespace of the class.
\<close>

definition class_setattr :: "pystate \<Rightarrow> cid \<Rightarrow> string \<Rightarrow> pyval \<Rightarrow> error + pystate" where
  "class_setattr st cls name v =
     (if name \<in> set readonly_attributes then Inl AttributeError
      else if name = ''__bases__'' \<or> name = ''__class__'' then Inl TypeError
      else if name = ''__name__'' then
        (case v of
           PStr s \<Rightarrow>
             if CHR 0x00 \<in> set s then Inl ValueError
             else Inr (st\<lparr>classes := (classes st)(cls := (classes st cls)\<lparr>cls_name := s\<rparr>)\<rparr>)
         | _ \<Rightarrow> Inl TypeError)
      else if name = ''__qualname__'' then
        (case v of PStr s \<Rightarrow> Inr st | _ \<Rightarrow> Inl TypeError)
      else if name = ''__module__'' then
        Inr (namespace_store
               (st\<lparr>classes := (classes st)(cls := (classes st cls)\<lparr>cls_module := v\<rparr>)\<rparr>)
               cls name v)
      else Inr (namespace_store st cls name v))"

text \<open>The display \<^verbatim>\<open>{}\<close>: a new, empty dictionary at an unused address.\<close>

definition new_dict :: "pystate \<Rightarrow> addr \<times> pystate" where
  "new_dict st =
     (next_addr st, st\<lparr>heap := (heap st)(next_addr st := []), next_addr := Suc (next_addr st)\<rparr>)"

text \<open>
  \<^verbatim>\<open>cls.attr[key] = v\<close>: the attribute is looked up, and the object found is written in
  place. Only a dictionary supports the assignment of a string key.
\<close>

definition attr_setitem :: "pystate \<Rightarrow> cid \<Rightarrow> string \<Rightarrow> string \<Rightarrow> pyval \<Rightarrow> error + pystate" where
  "attr_setitem st cls attr key v =
     (case class_getattr st cls attr of
        None \<Rightarrow> Inl AttributeError
      | Some (PDict a) \<Rightarrow> Inr (st\<lparr>heap := (heap st)(a := dict_setitem (heap st a) key v)\<rparr>)
      | Some _ \<Rightarrow> Inl TypeError)"

subsection \<open>The hook\<close>

text \<open>
  Lines 136 to 141 with \<open>wikidata_key = ''brand_wikidata''\<close> and \<open>label_key = ''brand''\<close>,
  and lines 143 to 148 with \<open>''operator_wikidata''\<close> and \<open>''operator''\<close>: the two blocks
  differ in these two keys only.
\<close>

definition fold_wikidata :: "string \<Rightarrow> string \<Rightarrow> pystate \<Rightarrow> cid \<Rightarrow> pydict \<Rightarrow> error + pystate" where
  "fold_wikidata wikidata_key label_key st cls kwargs =
     (case map_of kwargs wikidata_key of
        None \<Rightarrow> Inr st
      | Some w \<Rightarrow>
          if \<not> truthy st w then Inr st
          else
            (case (if class_hasattr st cls ''item_attributes'' then Inr st
                   else (case new_dict st of
                           (a, st') \<Rightarrow> class_setattr st' cls ''item_attributes'' (PDict a))) of
               Inl e \<Rightarrow> Inl e
             | Inr st1 \<Rightarrow>
                 (case attr_setitem st1 cls ''item_attributes'' wikidata_key w of
                    Inl e \<Rightarrow> Inl e
                  | Inr st2 \<Rightarrow>
                      (case map_of kwargs label_key of
                         None \<Rightarrow> Inr st2
                       | Some l \<Rightarrow>
                           if truthy st2 l then attr_setitem st2 cls ''item_attributes'' label_key l
                           else Inr st2))))"

text \<open>Lines 150 and 151.\<close>

definition rename_spider :: "pystate \<Rightarrow> cid \<Rightarrow> pydict \<Rightarrow> error + pystate" where
  "rename_spider st cls kwargs =
     (case map_of kwargs ''spider_key'' of
        None \<Rightarrow> Inr st
      | Some n \<Rightarrow> if truthy st n then class_setattr st cls ''name'' n else Inr st)"

text \<open>
  Lines 154 and 155: the loop over the entries of \<^verbatim>\<open>extracted_attributes\<close>; an
  exception of \<^verbatim>\<open>setattr\<close> ends it.
\<close>

fun setattr_loop :: "pystate \<Rightarrow> cid \<Rightarrow> pydict \<Rightarrow> error + pystate" where
  "setattr_loop st cls [] = Inr st"
| "setattr_loop st cls ((k, v) # items) =
     (case class_setattr st cls k v of
        Inl e \<Rightarrow> Inl e
      | Inr st' \<Rightarrow> setattr_loop st' cls items)"

text \<open>
  Lines 153 to 155. A true value that is not a dictionary has no method \<^verbatim>\<open>items\<close>.
\<close>

definition set_extracted :: "pystate \<Rightarrow> cid \<Rightarrow> pydict \<Rightarrow> error + pystate" where
  "set_extracted st cls kwargs =
     (case map_of kwargs ''extracted_attributes'' of
        None \<Rightarrow> Inr st
      | Some x \<Rightarrow>
          if truthy st x then
            (case x of
               PDict e \<Rightarrow> setattr_loop st cls (heap st e)
             | _ \<Rightarrow> Inl AttributeError)
          else Inr st)"

text \<open>
  \<^verbatim>\<open>__init_subclass__(cls, **kwargs)\<close>, run once by the class statement that declares
  \<open>cls\<close>, after the class object and its namespace exist.
\<close>

definition init_subclass :: "pystate \<Rightarrow> cid \<Rightarrow> pydict \<Rightarrow> error + pystate" where
  "init_subclass st cls kwargs =
     (case fold_wikidata ''brand_wikidata'' ''brand'' st cls kwargs of
        Inl e \<Rightarrow> Inl e
      | Inr st1 \<Rightarrow>
          (case fold_wikidata ''operator_wikidata'' ''operator'' st1 cls kwargs of
             Inl e \<Rightarrow> Inl e
           | Inr st2 \<Rightarrow>
               (case rename_spider st2 cls kwargs of
                  Inl e \<Rightarrow> Inl e
                | Inr st3 \<Rightarrow> set_extracted st3 cls kwargs)))"

section \<open>The detection and extraction protocols\<close>

text \<open>
  A Scrapy request and response, as far as the protocols read them: the URL, the body
  and the \<^verbatim>\<open>meta\<close> dictionary.
\<close>

record request =
  req_url :: string
  req_meta :: pydict

record response =
  resp_url :: string
  resp_body :: string
  resp_meta :: pydict

text \<open>The return types \<^verbatim>\<open>bool | Request\<close> and \<^verbatim>\<open>dict | Request\<close>.\<close>

datatype detection = Verdict bool | DetectionRequest request

datatype extraction = Attributes pydict | ExtractionRequest request

definition storefinder_exists :: "response \<Rightarrow> detection" where
  "storefinder_exists response = Verdict False"

definition extract_spider_attributes :: "response \<Rightarrow> extraction" where
  "extract_spider_attributes response = Attributes []"

subsection \<open>Detection chains\<close>

text \<open>
  Modelled from the spec: the driver that follows a detection chain (it takes the result
  of a detection step, dispatches a pending request, and calls the continuation that
  the request names with the response) is not among the sources; only the contract of a
  step is, in the docstring of \<^verbatim>\<open>storefinder_exists\<close>. The driver follows sections 3,
  4.1 and 4.3 of the specification: a step returns \<^verbatim>\<open>Detected\<close> (\<^verbatim>\<open>True\<close>),
  \<^verbatim>\<open>NotDetected\<close> (\<^verbatim>\<open>False\<close>) or a pending request, which carries in
  \<^verbatim>\<open>meta["next_detection_method"]\<close> the identifier of the method to invoke with the
  response; the chain is strictly sequential and ends only when a step returns a
  boolean. The driver is given the methods by identifier (each has the type of the
  three-way contract) and the dispatcher that answers a request. A chain that never
  reaches a boolean, or whose request names no continuation, has no result: \<open>None\<close>.
\<close>

partial_function (option) detection_chain ::
  "(string \<Rightarrow> response \<Rightarrow> detection) \<Rightarrow> (request \<Rightarrow> response) \<Rightarrow> detection \<Rightarrow> bool option" where
  "detection_chain methods dispatch d =
     (case d of
        Verdict b \<Rightarrow> Some b
      | DetectionRequest rq \<Rightarrow>
          (case map_of (req_meta rq) ''next_detection_method'' of
             Some (PStr continuation) \<Rightarrow>
               detection_chain methods dispatch (methods continuation (dispatch rq))
           | _ \<Rightarrow> None))"

text \<open>
  Modelled from the spec: \<open>follows methods dispatch d d'\<close> says that \<open>d'\<close> is the result of
  the step after the one that returned \<open>d\<close>: \<open>d\<close> is a pending request, and \<open>d'\<close> is what
  the continuation it names returns on the response to it. The results of the steps of
  one chain are a non-empty list in which each element follows the one before it; so
  every element but the last is a pending request.
\<close>

fun follows ::
  "(string \<Rightarrow> response \<Rightarrow> detection) \<Rightarrow> (request \<Rightarrow> response) \<Rightarrow> detection \<Rightarrow> detection \<Rightarrow> bool" where
  "follows methods dispatch (DetectionRequest rq) d' =
     (case map_of (req_meta rq) ''next_detection_method'' of
        Some (PStr continuation) \<Rightarrow> d' = methods continuation (dispatch rq)
      | _ \<Rightarrow> False)"
| "follows methods dispatch (Verdict b) d' = False"

definition chain_results ::
  "(string \<Rightarrow> response \<Rightarrow> detection) \<Rightarrow> (request \<Rightarrow> response) \<Rightarrow> detection list \<Rightarrow> bool" where
  "chain_results methods dispatch ds = (ds \<noteq> [] \<and> successively (follows methods dispatch) ds)"

section \<open>The text one attribute contributes\<close>

text \<open>
  The lines that one pass of the loop of line 55 appends for an attribute, written
  without the accumulator: one entry line of a dictionary block, one element line of a
  bracket block, and the whole block of an attribute. The lemmas below relate them to
  the loops.
\<close>

fun dict_item_line :: "string \<times> pyval \<Rightarrow> string" where
  "dict_item_line (k2, PStr s) = [NL, TAB, TAB] @ k2 @ '' = '' @ [DQ] @ s @ [DQ] @ '',''"
| "dict_item_line (k2, v2) = []"

fun seq_item_line :: "pyval \<Rightarrow> string" where
  "seq_item_line (PStr s) = [NL, TAB, TAB] @ [DQ] @ s @ [DQ] @ '',''"
| "seq_item_line v2 = []"

fun attribute_lines :: "pystate \<Rightarrow> string \<times> pyval \<Rightarrow> string" where
  "attribute_lines st (k, PStr s) = [NL, TAB] @ k @ '' = '' @ [DQ] @ s @ [DQ]"
| "attribute_lines st (k, PDict a) =
     [NL, TAB] @ k @ '' = {'' @ concat (map dict_item_line (heap st a)) @ [NL, TAB] @ ''}''"
| "attribute_lines st (k, PSeq vs) =
     [NL, TAB] @ k @ '' = ['' @ concat (map seq_item_line vs) @ [NL, TAB] @ '']''"
| "attribute_lines st (k, PSet vs) =
     [NL, TAB] @ k @ '' = ['' @ concat (map seq_item_line (set_order st vs)) @ [NL, TAB] @ '']''"
| "attribute_lines st (k, v) = []"

text \<open>The import line of one base class, and the text before the attributes.\<close>

definition import_line :: "pystate \<Rightarrow> cid \<Rightarrow> string" where
  "import_line st b =
     ''from '' @ format_value st (cls_module (classes st b)) @ '' import ''
     @ cls_name (classes st b) @ [NL]"

definition class_header :: "pystate \<Rightarrow> cid \<Rightarrow> string" where
  "class_header st spider =
     concat (map (import_line st) (cls_bases (classes st spider)))
     @ [NL, NL] @ ''class '' @ cls_name (classes st spider) @ ''(''
     @ join '', '' (map (\<lambda>b. cls_name (classes st b)) (cls_bases (classes st spider)))
     @ ''):''"

text \<open>
  The store after lines 150 and 151, and the store after the loop of line 154 over
  entries whose names are written to the namespace.
\<close>

definition renamed :: "pystate \<Rightarrow> cid \<Rightarrow> pydict \<Rightarrow> pystate" where
  "renamed st cls kwargs =
     (case map_of kwargs ''spider_key'' of
        None \<Rightarrow> st
      | Some n \<Rightarrow> if truthy st n then namespace_store st cls ''name'' n else st)"

definition store_items :: "pystate \<Rightarrow> cid \<Rightarrow> pydict \<Rightarrow> pystate" where
  "store_items st cls items =
     st\<lparr>classes := (classes st)
           (cls := (classes st cls)\<lparr>cls_dict := dict_update (cls_dict (classes st cls)) items\<rparr>)\<rparr>"

section \<open>Example definitions\<close>

text \<open>
  Two interpreter processes. An iteration order of sets is given by the slots of the
  elements in the hash table; \<open>seed_1_order\<close> and \<open>seed_2_order\<close> iterate the set
  \<^verbatim>\<open>{'alpha', 'beta', 'gamma', 'delta'}\<close> as CPython 3.11 does with \<^verbatim>\<open>PYTHONHASHSEED=1\<close>
  (beta, delta, gamma, alpha) and with \<^verbatim>\<open>PYTHONHASHSEED=2\<close> (delta, gamma, alpha, beta).
  The examples format strings only; \<open>example_format_text\<close> gives the text of \<^verbatim>\<open>None\<close> and
  of the booleans.
\<close>

definition slot_order :: "(pyval \<times> nat) list \<Rightarrow> pyval list \<Rightarrow> pyval list" where
  "slot_order slots vs = sort_key (\<lambda>v. case map_of slots v of Some i \<Rightarrow> i | None \<Rightarrow> 0) vs"

definition seed_1_order :: "pyval list \<Rightarrow> pyval list" where
  "seed_1_order =
     slot_order [(PStr ''beta'', 0), (PStr ''delta'', 1), (PStr ''gamma'', 2), (PStr ''alpha'', 3)]"

definition seed_2_order :: "pyval list \<Rightarrow> pyval list" where
  "seed_2_order =
     slot_order [(PStr ''delta'', 0), (PStr ''gamma'', 1), (PStr ''alpha'', 2), (PStr ''beta'', 3)]"

fun example_format_text :: "(addr \<Rightarrow> pydict) \<Rightarrow> pyval \<Rightarrow> string" where
  "example_format_text h PNone = ''None''"
| "example_format_text h (PBool b) = (if b then ''True'' else ''False'')"
| "example_format_text h v = ''<object>''"

text \<open>
  The scenario of section 8 of the specification: the spider \<^verbatim>\<open>acme_example\<close> with base
  type \<^verbatim>\<open>Spider\<close> of module \<^verbatim>\<open>scraping_lib\<close>. Its namespace is given here in an
  order other than the rendering order, with a private entry, an entry that is
  \<^verbatim>\<open>None\<close>, a method and two further public attributes.
\<close>

definition spider_base :: pyclass where
  "spider_base =
     \<lparr>cls_name = ''Spider'', cls_module = PStr ''scraping_lib'', cls_bases = [],
      cls_ancestors = [], cls_dict = []\<rparr>"

definition acme_example :: pyclass where
  "acme_example =
     \<lparr>cls_name = ''acme_example'', cls_module = PStr ''locations.spiders.acme_example'',
      cls_bases = [0], cls_ancestors = [0],
      cls_dict =
        [(''__module__'', PStr ''locations.spiders.acme_example''),
         (''start_urls'', PSeq [PStr ''https://acme.example/stores'']),
         (''zeta'', PStr ''z''),
         (''item_attributes'', PDict 0),
         (''download_delay'', PInt 2),
         (''beta'', PSeq [PStr ''b'', PInt 1]),
         (''name'', PStr ''acme_example''),
         (''parse'', PObj),
         (''user_agent'', PNone),
         (''allowed_domains'', PSeq [PStr ''acme.example''])]\<rparr>"

definition example_state :: pystate where
  "example_state =
     \<lparr>classes = (\<lambda>c. if c = 1 then acme_example else spider_base),
      heap = (\<lambda>a. if a = 0 then [(''brand'', PStr ''Acme''), (''brand_wikidata'', PStr ''Q1'')] else []),
      next_addr = 1, set_order = seed_1_order,
      format_text = example_format_text\<rparr>"

section \<open>Notions used to state the claims\<close>

text \<open>
  The dictionaries that the attributes \<open>attrs\<close> refer to have the same entries in both
  stores, and the sets among the attributes are iterated in the same order in both.
\<close>

definition stores_agree :: "pystate \<Rightarrow> pystate \<Rightarrow> pydict \<Rightarrow> bool" where
  "stores_agree st st' attrs =
     list_all
       (\<lambda>kv. case snd kv of
                PDict a \<Rightarrow> heap st a = heap st' a
              | PSet vs \<Rightarrow> set_order st vs = set_order st' vs
              | _ \<Rightarrow> True)
       attrs"

text \<open>The store in which the class \<open>cls\<close> has no entry \<open>key\<close> in its own namespace.\<close>

definition del_attribute :: "pystate \<Rightarrow> cid \<Rightarrow> string \<Rightarrow> pystate" where
  "del_attribute st cls key =
     st\<lparr>classes := (classes st)
           (cls := (classes st cls)\<lparr>cls_dict := filter (\<lambda>kv. fst kv \<noteq> key) (cls_dict (classes st cls))\<rparr>)\<rparr>"

text \<open>
  The example once more, in another store: the class and its base have other
  identities, the namespace lists the same public attributes in another order and has
  other private entries, and the heap holds a further dictionary.
\<close>

definition acme_example_reordered :: pyclass where
  "acme_example_reordered =
     \<lparr>cls_name = ''acme_example'', cls_module = PStr ''elsewhere'',
      cls_bases = [5], cls_ancestors = [5, 6],
      cls_dict =
        [(''zeta'', PStr ''z''),
         (''name'', PStr ''acme_example''),
         (''_cache'', PSeq []),
         (''allowed_domains'', PSeq [PStr ''acme.example'']),
         (''beta'', PSeq [PStr ''b'', PInt 1]),
         (''parse'', PObj),
         (''download_delay'', PInt 2),
         (''item_attributes'', PDict 0),
         (''start_urls'', PSeq [PStr ''https://acme.example/stores''])]\<rparr>"

definition reordered_state :: pystate where
  "reordered_state =
     \<lparr>classes = (\<lambda>c. if c = 2 then acme_example_reordered else spider_base),
      heap = (\<lambda>a. if a = 0 then [(''brand'', PStr ''Acme''), (''brand_wikidata'', PStr ''Q1'')]
                   else if a = 7 then [(''k'', PStr ''v'')] else []),
      next_addr = 8, set_order = seed_1_order,
      format_text = example_format_text\<rparr>"

text \<open>
  A class whose public attributes have empty values: \<^verbatim>\<open>name = ""\<close>,
  \<^verbatim>\<open>item_attributes = {}\<close>, \<^verbatim>\<open>start_urls = []\<close>.
\<close>

definition empty_values_state :: pystate where
  "empty_values_state =
     \<lparr>classes = (\<lambda>c. \<lparr>cls_name = ''empty_example'', cls_module = PStr ''m'', cls_bases = [],
                        cls_ancestors = [],
                        cls_dict = [(''name'', PStr []), (''item_attributes'', PDict 0),
                                    (''start_urls'', PSeq [])]\<rparr>),
      heap = (\<lambda>a. []),
      next_addr = 1, set_order = seed_1_order,
      format_text = example_format_text\<rparr>"

text \<open>
  A class with one public attribute whose value is a class object with sized
  instances, as in \<^verbatim>\<open>class typed_example: container = list\<close>.
\<close>

definition type_attribute_state :: pystate where
  "type_attribute_state =
     \<lparr>classes = (\<lambda>c. \<lparr>cls_name = ''typed_example'', cls_module = PStr ''m'', cls_bases = [],
                        cls_ancestors = [],
                        cls_dict = [(''container'', PType)]\<rparr>),
      heap = (\<lambda>a. []),
      next_addr = 0, set_order = seed_1_order,
      format_text = example_format_text\<rparr>"

text \<open>
  A class with a set-valued attribute, as in
  \<^verbatim>\<open>class tagged_example: tags = {'alpha', 'beta', 'gamma', 'delta'}\<close>, whose only base
  is \<^verbatim>\<open>object\<close>, in an interpreter process with the given iteration order of sets.
\<close>

definition object_class :: pyclass where
  "object_class =
     \<lparr>cls_name = ''object'', cls_module = PStr ''builtins'', cls_bases = [],
      cls_ancestors = [], cls_dict = []\<rparr>"

definition tagged_example :: pyclass where
  "tagged_example =
     \<lparr>cls_name = ''tagged_example'', cls_module = PStr ''__main__'',
      cls_bases = [0], cls_ancestors = [0],
      cls_dict =
        [(''__module__'', PStr ''__main__''),
         (''tags'', PSet [PStr ''alpha'', PStr ''beta'', PStr ''gamma'', PStr ''delta''])]\<rparr>"

definition tagged_state :: "(pyval list \<Rightarrow> pyval list) \<Rightarrow> pystate" where
  "tagged_state order =
     \<lparr>classes = (\<lambda>c. if c = 1 then tagged_example else object_class),
      heap = (\<lambda>a. []),
      next_addr = 0, set_order = order,
      format_text = example_format_text\<rparr>"

text \<open>
  A class with three base types:
  \<^verbatim>\<open>class AcmeStoresSpider(CrawlSpider, StructuredDataSpider, AutomaticSpiderGenerator)\<close>
  with \<^verbatim>\<open>name = "acme_stores"\<close>.
\<close>

definition three_bases_state :: pystate where
  "three_bases_state =
     \<lparr>classes =
        (\<lambda>c. if c = 0 then
                \<lparr>cls_name = ''CrawlSpider'', cls_module = PStr ''scrapy.spiders'',
                 cls_bases = [4], cls_ancestors = [4], cls_dict = []\<rparr>
              else if c = 1 then
                \<lparr>cls_name = ''StructuredDataSpider'',
                 cls_module = PStr ''locations.structured_data_spider'',
                 cls_bases = [4], cls_ancestors = [4], cls_dict = []\<rparr>
              else if c = 2 then
                \<lparr>cls_name = ''AutomaticSpiderGenerator'',
                 cls_module = PStr ''locations.automatic_spider_generator'',
                 cls_bases = [4], cls_ancestors = [4], cls_dict = []\<rparr>
              else if c = 3 then
                \<lparr>cls_name = ''AcmeStoresSpider'', cls_module = PStr ''locations.spiders.acme_stores'',
                 cls_bases = [0, 1, 2], cls_ancestors = [0, 1, 2, 4],
                 cls_dict = [(''name'', PStr ''acme_stores'')]\<rparr>
              else object_class),
      heap = (\<lambda>a. []),
      next_addr = 0, set_order = seed_1_order,
      format_text = example_format_text\<rparr>"

text \<open>
  The dictionary that the hook writes for the class \<open>cls\<close>: the one that the attribute
  \<^verbatim>\<open>item_attributes\<close> of the class resolves to, or else the one that line 138 or 145
  creates.
\<close>

definition item_attributes_address :: "pystate \<Rightarrow> cid \<Rightarrow> addr" where
  "item_attributes_address st cls =
     (case class_getattr st cls ''item_attributes'' of
        Some (PDict t) \<Rightarrow> t
      | _ \<Rightarrow> next_addr st)"

text \<open>The attribute \<^verbatim>\<open>item_attributes\<close>, where the class has or inherits one, is a dictionary.\<close>

definition item_attributes_ok :: "pystate \<Rightarrow> cid \<Rightarrow> bool" where
  "item_attributes_ok st cls =
     (case class_getattr st cls ''item_attributes'' of
        None \<Rightarrow> True
      | Some (PDict t) \<Rightarrow> True
      | Some _ \<Rightarrow> False)"

text \<open>
  The keyword \<open>key\<close> is given with a true value: \<^verbatim>\<open>key in kwargs.keys() and kwargs[key]\<close>.
\<close>

definition given :: "pystate \<Rightarrow> pydict \<Rightarrow> string \<Rightarrow> pyval \<Rightarrow> bool" where
  "given st kwargs key v = (map_of kwargs key = Some v \<and> truthy st v)"

text \<open>
  The names that \<^verbatim>\<open>setattr\<close> on a class does not write to the namespace, or not only:
  the names that \<open>class_setattr\<close> handles one by one.
\<close>

definition special_attributes :: "string list" where
  "special_attributes =
     readonly_attributes @ [''__bases__'', ''__class__'', ''__name__'', ''__qualname__'', ''__module__'']"

text \<open>
  The keyword \<^verbatim>\<open>extracted_attributes\<close> is absent, false, or a dictionary (with distinct
  keys, as every dictionary has) of names that \<^verbatim>\<open>setattr\<close> writes to the namespace of a
  class.
\<close>

definition extracted_attributes_ok :: "pystate \<Rightarrow> pydict \<Rightarrow> bool" where
  "extracted_attributes_ok st kwargs =
     (case map_of kwargs ''extracted_attributes'' of
        None \<Rightarrow> True
      | Some (PDict e) \<Rightarrow>
          distinct (map fst (heap st e))
          \<and> list_all (\<lambda>k. k \<notin> set special_attributes) (map fst (heap st e))
      | Some x \<Rightarrow> \<not> truthy st x)"

text \<open>
  The dictionary \<^verbatim>\<open>extracted_attributes\<close>, as the store \<open>st\<close> holds it, has an entry
  \<open>name\<close>: the loop of line 154 sets the attribute \<open>name\<close> last.
\<close>

definition overrides :: "pystate \<Rightarrow> pydict \<Rightarrow> string \<Rightarrow> bool" where
  "overrides st kwargs name =
     (case map_of kwargs ''extracted_attributes'' of
        Some (PDict e) \<Rightarrow> name \<in> fst ` set (heap st e)
      | _ \<Rightarrow> False)"

text \<open>
  A store for the declaration hook. Class 0 is \<^verbatim>\<open>AutomaticSpiderGenerator\<close>; class 1 is a
  store finder class with an \<^verbatim>\<open>item_attributes\<close> dictionary of its own (at address 0);
  class 2 is an earlier spider that inherits it; class 3 is a class being declared
  from class 0 with a \<^verbatim>\<open>name\<close> in its body; class 4 is a class being declared from class 1.
  The dictionary at address 1 holds pre-extracted attributes, the one at address 2 is
  empty.
\<close>

definition generator_base :: pyclass where
  "generator_base =
     \<lparr>cls_name = ''AutomaticSpiderGenerator'',
      cls_module = PStr ''locations.automatic_spider_generator'',
      cls_bases = [], cls_ancestors = [],
      cls_dict = [(''generate_spider_code'', PObj), (''storefinder_exists'', PObj)]\<rparr>"

definition locator_base :: pyclass where
  "locator_base =
     \<lparr>cls_name = ''ExampleLocatorSpider'', cls_module = PStr ''locations.storefinders.example'',
      cls_bases = [0], cls_ancestors = [0],
      cls_dict = [(''item_attributes'', PDict 0)]\<rparr>"

definition earlier_spider :: pyclass where
  "earlier_spider =
     \<lparr>cls_name = ''EarlierSpider'', cls_module = PStr ''locations.spiders.earlier'',
      cls_bases = [1], cls_ancestors = [1, 0],
      cls_dict = [(''name'', PStr ''earlier'')]\<rparr>"

definition new_spider :: pyclass where
  "new_spider =
     \<lparr>cls_name = ''NewSpider'', cls_module = PStr ''locations.spiders.new'',
      cls_bases = [0], cls_ancestors = [0],
      cls_dict = [(''name'', PStr ''old_name'')]\<rparr>"

definition later_spider :: pyclass where
  "later_spider =
     \<lparr>cls_name = ''LaterSpider'', cls_module = PStr ''locations.spiders.later'',
      cls_bases = [1], cls_ancestors = [1, 0],
      cls_dict = [(''name'', PStr ''later'')]\<rparr>"

definition declaration_state :: pystate where
  "declaration_state =
     \<lparr>classes = (\<lambda>c. if c = 1 then locator_base else if c = 2 then earlier_spider
                      else if c = 3 then new_spider else if c = 4 then later_spider
                      else generator_base),
      heap = (\<lambda>a. if a = 0 then [(''country'', PStr ''PL'')]
                   else if a = 1 then [(''allowed_domains'', PSeq [PStr ''acme.example'']),
                                       (''start_urls'', PSeq [PStr ''https://acme.example/stores''])]
                   else []),
      next_addr = 3, set_order = seed_1_order,
      format_text = example_format_text\<rparr>"

text \<open>
  \<^verbatim>\<open>class NewSpider(AutomaticSpiderGenerator, brand_wikidata="Q1", brand="Acme",
  spider_key="new_name", extracted_attributes={...})\<close>.
\<close>

definition enrichment_kwargs :: pydict where
  "enrichment_kwargs =
     [(''brand_wikidata'', PStr ''Q1''), (''brand'', PStr ''Acme''),
      (''spider_key'', PStr ''new_name''), (''extracted_attributes'', PDict 1)]"

text \<open>\<^verbatim>\<open>class LaterSpider(ExampleLocatorSpider, brand_wikidata="Q1")\<close>.\<close>

definition brand_kwargs :: pydict where
  "brand_kwargs = [(''brand_wikidata'', PStr ''Q1'')]"

text \<open>
  \<^verbatim>\<open>spider_key="", brand_wikidata="", operator_wikidata=None, extracted_attributes={}\<close>.
\<close>

definition falsy_kwargs :: pydict where
  "falsy_kwargs =
     [(''spider_key'', PStr []), (''brand_wikidata'', PStr []),
      (''operator_wikidata'', PNone), (''extracted_attributes'', PDict 2)]"

text \<open>\<^verbatim>\<open>spider_key="", brand_wikidata="Q1", brand=None\<close>.\<close>

definition mixed_kwargs :: pydict where
  "mixed_kwargs = [(''spider_key'', PStr []), (''brand_wikidata'', PStr ''Q1''), (''brand'', PNone)]"

text \<open>
  \<^verbatim>\<open>spider_key="", brand_wikidata="Q1", brand=None, extracted_attributes={}\<close>: an empty
  dictionary beside a true keyword.
\<close>

definition empty_extracted_kwargs :: pydict where
  "empty_extracted_kwargs =
     [(''spider_key'', PStr []), (''brand_wikidata'', PStr ''Q1''), (''brand'', PNone),
      (''extracted_attributes'', PDict 2)]"

text \<open>
  The store of the declarations with three more dictionaries: at address 3
  pre-extracted attributes with entries \<^verbatim>\<open>name\<close> and \<^verbatim>\<open>item_attributes\<close> of their own, at
  address 4 the dictionary which that entry \<^verbatim>\<open>item_attributes\<close> is, and at address 5
  pre-extracted attributes with the entry \<^verbatim>\<open>__mro__\<close>.
\<close>

definition override_state :: pystate where
  "override_state =
     declaration_state
       \<lparr>heap := (heap declaration_state)
          (3 := [(''name'', PStr ''from_extracted''), (''item_attributes'', PDict 4)],
           4 := [(''country'', PStr ''DE'')],
           5 := [(''__mro__'', PSeq [])]),
        next_addr := 6\<rparr>"

text \<open>
  \<^verbatim>\<open>class NewSpider(AutomaticSpiderGenerator, spider_key="from_key", brand_wikidata="Q1",
  extracted_attributes={"name": "from_extracted", "item_attributes": {"country": "DE"}})\<close>.
\<close>

definition override_kwargs :: pydict where
  "override_kwargs =
     [(''spider_key'', PStr ''from_key''), (''brand_wikidata'', PStr ''Q1''),
      (''extracted_attributes'', PDict 3)]"

text \<open>\<^verbatim>\<open>class NewSpider(AutomaticSpiderGenerator, extracted_attributes={"__mro__": ()})\<close>.\<close>

definition readonly_kwargs :: pydict where
  "readonly_kwargs = [(''extracted_attributes'', PDict 5)]"

text \<open>
  The store of the declarations in which the dictionary \<^verbatim>\<open>item_attributes\<close> of
  \<^verbatim>\<open>ExampleLocatorSpider\<close> (address 0) is empty, and the declaration
  \<^verbatim>\<open>class LaterSpider(ExampleLocatorSpider, brand_wikidata="Q1",
  extracted_attributes=ExampleLocatorSpider.item_attributes)\<close>: the keyword
  \<^verbatim>\<open>extracted_attributes\<close> is bound to the very dictionary that the class inherits.
\<close>

definition aliased_state :: pystate where
  "aliased_state = declaration_state\<lparr>heap := (heap declaration_state)(0 := [])\<rparr>"

definition aliased_kwargs :: pydict where
  "aliased_kwargs = [(''brand_wikidata'', PStr ''Q1''), (''extracted_attributes'', PDict 0)]"

text \<open>
  The value \<open>v\<close> is false in the store \<open>st\<close> and stays false while the hook runs for the
  class \<open>cls\<close>: \<^verbatim>\<open>None\<close>, \<^verbatim>\<open>False\<close>, \<^verbatim>\<open>0\<close>, an empty string, list, tuple or set, or an
  empty dictionary of the store other than the one that the hook writes.
\<close>

definition stays_false :: "pystate \<Rightarrow> cid \<Rightarrow> pyval \<Rightarrow> bool" where
  "stays_false st cls v =
     (\<not> truthy st v
      \<and> (case v of
            PDict a \<Rightarrow> a < next_addr st \<and> a \<noteq> item_attributes_address st cls
          | _ \<Rightarrow> True))"

text \<open>The keywords that the hook reads.\<close>

definition enrichment_keywords :: "string list" where
  "enrichment_keywords =
     [''brand_wikidata'', ''operator_wikidata'', ''spider_key'', ''extracted_attributes'']"

definition recognized_keywords :: "string list" where
  "recognized_keywords =
     [''brand_wikidata'', ''brand'', ''operator_wikidata'', ''operator'', ''spider_key'',
      ''extracted_attributes'']"

text \<open>
  A detection chain of three steps: the first probe asks for the store locator page,
  the method \<^verbatim>\<open>check_page\<close> asks for the platform's API, and the method \<^verbatim>\<open>check_api\<close>
  decides by the body of the response. The dispatcher answers the API request with the
  body \<^verbatim>\<open>ok\<close>.
\<close>

definition page_request :: request where
  "page_request =
     \<lparr>req_url = ''https://acme.example/stores'',
      req_meta = [(''next_detection_method'', PStr ''check_page'')]\<rparr>"

definition api_request :: request where
  "api_request =
     \<lparr>req_url = ''https://acme.example/api'',
      req_meta = [(''next_detection_method'', PStr ''check_api'')]\<rparr>"

definition example_methods :: "string \<Rightarrow> response \<Rightarrow> detection" where
  "example_methods name response =
     (if name = ''check_page'' then DetectionRequest api_request
      else if name = ''check_api'' then Verdict (resp_body response = ''ok'')
      else storefinder_exists response)"

definition example_dispatch :: "request \<Rightarrow> response" where
  "example_dispatch rq =
     \<lparr>resp_url = req_url rq,
      resp_body = (if req_url rq = ''https://acme.example/api'' then ''ok'' else ''<html>''),
      resp_meta = req_meta rq\<rparr>"


section \<open>Properties of the primitives and of the loops\<close>

subsection \<open>Dictionaries with distinct keys\<close>

lemma dict_setitem_fresh:
  "k \<notin> fst ` set d \<Longrightarrow> dict_setitem d k v = d @ [(k, v)]"
  by (induction d) auto

lemma dict_update_distinct:
  "distinct (map fst (d @ items)) \<Longrightarrow> dict_update d items = d @ items"
proof (induction items arbitrary: d)
  case Nil
  then show ?case by simp
next
  case (Cons kv items)
  obtain k v where kv: "kv = (k, v)" by (cases kv)
  from Cons.prems kv have fresh: "k \<notin> fst ` set d" by auto
  from Cons.prems kv have "distinct (map fst ((d @ [(k, v)]) @ items))" by auto
  then have "dict_update (d @ [(k, v)]) items = (d @ [(k, v)]) @ items" by (rule Cons.IH)
  with fresh kv show ?case by (simp add: dict_setitem_fresh)
qed

lemma dict_from_distinct:
  "distinct (map fst items) \<Longrightarrow> dict_from items = items"
  using dict_update_distinct [of "[]" items] by (simp add: dict_from_def)

lemma spider_attributes_filter:
  "distinct (map fst vs) \<Longrightarrow>
   spider_attributes vs = filter (\<lambda>(k, v). \<not> startswith k ''_'' \<and> v \<noteq> PNone) vs"
  by (simp add: spider_attributes_def dict_from_distinct distinct_map_filter)

lemma spider_attributes_keys:
  assumes "distinct (map fst ns)"
  shows "map fst (spider_attributes ns)
           = filter (\<lambda>k. \<not> startswith k ''_'' \<and> map_of ns k \<noteq> Some PNone) (map fst ns)"
proof -
  have "filter (\<lambda>k. \<not> startswith k ''_'' \<and> map_of ns k \<noteq> Some PNone) (map fst ns)
          = map fst (filter ((\<lambda>k. \<not> startswith k ''_'' \<and> map_of ns k \<noteq> Some PNone) \<circ> fst) ns)"
    by (simp add: filter_map)
  also have "filter ((\<lambda>k. \<not> startswith k ''_'' \<and> map_of ns k \<noteq> Some PNone) \<circ> fst) ns
          = filter (\<lambda>(k, v). \<not> startswith k ''_'' \<and> v \<noteq> PNone) ns"
    by (rule filter_cong) (use assms in \<open>auto dest: eq_key_imp_eq_value\<close>)
  finally show ?thesis using assms by (simp add: spider_attributes_filter)
qed

lemma in_spider_attributes:
  assumes "distinct (map fst ns)"
  shows "(k, v) \<in> set (spider_attributes ns)
           \<longleftrightarrow> map_of ns k = Some v \<and> \<not> startswith k ''_'' \<and> v \<noteq> PNone"
  using assms by (auto simp: spider_attributes_filter)

lemma spider_attributes_distinct:
  "distinct (map fst vs) \<Longrightarrow> distinct (map fst (spider_attributes vs))"
  by (simp add: spider_attributes_filter distinct_map_filter)

lemma map_fst_select_items:
  "map fst (select_items d ks) = filter (\<lambda>k. k \<in> fst ` set d) ks"
proof (induction ks)
  case Nil
  then show ?case by simp
next
  case (Cons k ks)
  show ?case
  proof (cases "map_of d k")
    case None
    then have "k \<notin> fst ` set d" by (simp add: map_of_eq_None_iff)
    with None Cons.IH show ?thesis by simp
  next
    case (Some v)
    then have "(k, v) \<in> set d" by (rule map_of_SomeD)
    then have "k \<in> fst ` set d" by force
    with Some Cons.IH show ?thesis by simp
  qed
qed

lemma select_items_cong:
  "map_of d = map_of d' \<Longrightarrow> select_items d ks = select_items d' ks"
  by (induction ks) (simp_all split: option.split)

lemma map_insort_key:
  "map f (insort_key f a xs) = insort (f a) (map f xs)"
  by (induction xs) simp_all

lemma map_fst_sort_key:
  "map fst (sort_key fst xs) = sort (map fst xs)"
  by (induction xs) (simp_all add: map_insort_key)

subsection \<open>The loops in closed form\<close>

lemma render_dict_items_eq:
  "render_dict_items code items = code @ concat (map dict_item_line items)"
proof (induction items arbitrary: code)
  case Nil
  then show ?case by simp
next
  case (Cons kv items)
  obtain k2 v2 where kv: "kv = (k2, v2)" by (cases kv)
  show ?case unfolding kv by (cases v2) (simp_all add: Cons.IH)
qed

lemma render_seq_items_eq:
  "render_seq_items code vs = code @ concat (map seq_item_line vs)"
proof (induction vs arbitrary: code)
  case Nil
  then show ?case by simp
next
  case (Cons v2 vs)
  show ?case by (cases v2) (simp_all add: Cons.IH)
qed

lemma render_attribute_eq:
  "render_attribute st code kv =
     (if snd kv = PType then Inl TypeError else Inr (code @ attribute_lines st kv))"
proof -
  obtain k v where kv: "kv = (k, v)" by (cases kv)
  show ?thesis unfolding kv
    by (cases v) (simp_all add: render_dict_items_eq render_seq_items_eq)
qed

lemma render_attributes_ok:
  "PType \<notin> snd ` set items \<Longrightarrow>
   render_attributes st code items = Inr (code @ concat (map (attribute_lines st) items))"
proof (induction items arbitrary: code)
  case Nil
  then show ?case by simp
next
  case (Cons kv items)
  from Cons.prems have "snd kv \<noteq> PType" and "PType \<notin> snd ` set items" by auto
  then show ?case by (simp add: render_attribute_eq Cons.IH)
qed

text \<open>A value that has \<^verbatim>\<open>__len__\<close> and is not iterable ends the loop with an exception.\<close>

lemma render_attributes_raises:
  "PType \<in> snd ` set items \<Longrightarrow> render_attributes st code items = Inl TypeError"
proof (induction items arbitrary: code)
  case Nil
  then show ?case by simp
next
  case (Cons kv items)
  show ?case
  proof (cases "snd kv = PType")
    case True
    then show ?thesis by (simp add: render_attribute_eq)
  next
    case False
    with Cons.prems have "PType \<in> snd ` set items" by auto
    then have "\<And>c. render_attributes st c items = Inl TypeError" by (rule Cons.IH)
    with False show ?thesis by (simp add: render_attribute_eq)
  qed
qed

lemma bases_loop_eq:
  "bases_loop st (imports_list, superclasses) bases =
     (imports_list @ concat (map (import_line st) bases),
      superclasses @ map (\<lambda>b. cls_name (classes st b)) bases)"
  by (induction bases arbitrary: imports_list superclasses) (simp_all add: import_line_def)

lemma generate_spider_code_eq:
  "generate_spider_code st spider =
     (case generate_spider_attributes_code st spider default_sort_order of
        Inl e \<Rightarrow> Inl e
      | Inr attributes_code \<Rightarrow> Inr (class_header st spider @ attributes_code))"
  by (simp add: generate_spider_code_def bases_loop_eq class_header_def split: sum.split)

subsection \<open>The order of the attributes\<close>

lemma in_select_items:
  "distinct (map fst d) \<Longrightarrow> (k, v) \<in> set (select_items d ks) \<longleftrightarrow> (k, v) \<in> set d \<and> k \<in> set ks"
  by (induction ks) (auto split: option.splits dest: eq_key_imp_eq_value)

lemma sort_key_fst_dict:
  assumes "distinct (map fst attrs)"
  shows "map fst (dict_from (sort_key fst attrs)) = sort (map fst attrs)"
proof -
  from assms have "distinct (map fst (sort_key fst attrs))"
    by (simp add: map_fst_sort_key)
  then show ?thesis by (simp add: dict_from_distinct map_fst_sort_key)
qed

lemma spider_attributes_sorted_eq:
  assumes "distinct (map fst attrs)" and "distinct sort_order"
  shows "spider_attributes_sorted sort_order attrs =
           select_items attrs sort_order
           @ select_items attrs (filter (\<lambda>k. k \<notin> set sort_order) (sort (map fst attrs)))"
proof -
  let ?A = "select_items attrs sort_order"
  let ?B = "select_items attrs (filter (\<lambda>k. k \<notin> set sort_order) (sort (map fst attrs)))"
  from assms have dA: "distinct (map fst ?A)"
    by (simp add: map_fst_select_items)
  from assms have dB: "distinct (map fst ?B)"
    by (simp add: map_fst_select_items)
  have "set (map fst ?A) \<inter> set (map fst ?B) = {}"
    by (auto simp: map_fst_select_items)
  with dA dB have "distinct (map fst (?A @ ?B))" by simp
  then have "dict_update ?A ?B = ?A @ ?B" by (rule dict_update_distinct)
  with assms dA dB show ?thesis
    by (simp add: spider_attributes_sorted_def sort_key_fst_dict dict_from_distinct)
qed

lemma spider_attributes_sorted_keys:
  assumes "distinct (map fst attrs)" and "distinct sort_order"
  shows "map fst (select_items attrs (filter (\<lambda>k. k \<notin> set sort_order) (sort (map fst attrs))))
           = sort (filter (\<lambda>k. k \<notin> set sort_order) (map fst attrs))"
proof -
  have "filter (\<lambda>k. k \<in> fst ` set attrs) (filter (\<lambda>k. k \<notin> set sort_order) (sort (map fst attrs)))
          = filter (\<lambda>k. k \<notin> set sort_order) (sort (map fst attrs))"
    by (rule filter_True) auto
  then show ?thesis by (simp add: map_fst_select_items filter_sort)
qed

lemma set_sorted_attributes:
  assumes "distinct (map fst attrs)"
  shows "set (select_items attrs sort_order
              @ select_items attrs (filter (\<lambda>k. k \<notin> set sort_order) (sort (map fst attrs))))
           = set attrs"
proof (rule set_eqI)
  fix kv :: "string \<times> 'a"
  obtain k v where kv: "kv = (k, v)" by (cases kv)
  have "(k, v) \<in> set attrs \<Longrightarrow> k \<in> set (map fst attrs)" by force
  then show "kv \<in> set (select_items attrs sort_order
              @ select_items attrs (filter (\<lambda>k. k \<notin> set sort_order) (sort (map fst attrs))))
          \<longleftrightarrow> kv \<in> set attrs"
    unfolding kv using assms by (auto simp: in_select_items)
qed

subsection \<open>What the rendered text depends on\<close>

lemma attribute_lines_heap_cong:
  "(case snd kv of
      PDict a \<Rightarrow> heap st a = heap st' a
    | PSet vs \<Rightarrow> set_order st vs = set_order st' vs
    | _ \<Rightarrow> True) \<Longrightarrow>
   attribute_lines st kv = attribute_lines st' kv"
proof -
  obtain k v where kv: "kv = (k, v)" by (cases kv)
  show "(case snd kv of
           PDict a \<Rightarrow> heap st a = heap st' a
         | PSet vs \<Rightarrow> set_order st vs = set_order st' vs
         | _ \<Rightarrow> True) \<Longrightarrow> ?thesis"
    unfolding kv by (cases v) simp_all
qed

lemma render_attributes_heap_cong:
  "stores_agree st st' items \<Longrightarrow>
   render_attributes st code items = render_attributes st' code items"
proof (induction items arbitrary: code)
  case Nil
  then show ?case by simp
next
  case (Cons kv items)
  from Cons.prems have here: "case snd kv of
                                PDict a \<Rightarrow> heap st a = heap st' a
                              | PSet vs \<Rightarrow> set_order st vs = set_order st' vs
                              | _ \<Rightarrow> True"
    and rest: "stores_agree st st' items"
    by (simp_all add: stores_agree_def)
  from here have "attribute_lines st kv = attribute_lines st' kv"
    by (rule attribute_lines_heap_cong)
  with Cons.IH [OF rest] show ?case
    by (simp add: render_attribute_eq)
qed

lemma stores_agree_set:
  "stores_agree st st' items \<Longrightarrow> set items' \<subseteq> set items \<Longrightarrow> stores_agree st st' items'"
  by (auto simp: stores_agree_def list_all_iff)

lemma class_header_cong:
  assumes "cls_name (classes st a) = cls_name (classes st' b)"
      and "map (\<lambda>c. (format_value st (cls_module (classes st c)), cls_name (classes st c)))
             (cls_bases (classes st a))
             = map (\<lambda>c. (format_value st' (cls_module (classes st' c)), cls_name (classes st' c)))
                 (cls_bases (classes st' b))"
  shows "class_header st a = class_header st' b"
proof -
  let ?p = "\<lambda>s c. (format_value s (cls_module (classes s c)), cls_name (classes s c))"
  have imp: "\<And>s. import_line s = (\<lambda>mn. ''from '' @ fst mn @ '' import '' @ snd mn @ [NL]) \<circ> ?p s"
    by (rule ext) (simp add: import_line_def)
  have nm: "\<And>s. (\<lambda>c. cls_name (classes s c)) = snd \<circ> ?p s"
    by (rule ext) simp
  from assms(2) have
    "map (import_line st) (cls_bases (classes st a)) = map (import_line st') (cls_bases (classes st' b))"
    unfolding imp map_map [symmetric] by simp
  moreover from assms(2) have
    "map (\<lambda>c. cls_name (classes st c)) (cls_bases (classes st a))
       = map (\<lambda>c. cls_name (classes st' c)) (cls_bases (classes st' b))"
    unfolding nm map_map [symmetric] by simp
  ultimately show ?thesis using assms(1) by (simp add: class_header_def)
qed

lemma spider_attributes_sorted_cong:
  assumes "distinct (map fst attrs)" and "distinct (map fst attrs')" and "set attrs = set attrs'"
      and "distinct sort_order"
  shows "spider_attributes_sorted sort_order attrs = spider_attributes_sorted sort_order attrs'"
proof -
  from assms(1-3) have m: "map_of attrs = map_of attrs'"
    by (simp add: map_of_inject_set)
  from assms(3) have "set (map fst attrs) = set (map fst attrs')" by simp
  with assms(1,2) have "sort (map fst attrs) = sort (map fst attrs')"
    by (intro sorted_distinct_set_unique) simp_all
  with m show ?thesis
    by (simp add: spider_attributes_sorted_eq assms select_items_cong [OF m])
qed

lemma set_spider_attributes_sorted:
  assumes "distinct (map fst attrs)" and "distinct sort_order"
  shows "set (spider_attributes_sorted sort_order attrs) = set attrs"
  unfolding spider_attributes_sorted_eq [OF assms] using assms(1) by (rule set_sorted_attributes)

text \<open>
  The text of \<^verbatim>\<open>generate_spider_code\<close> is determined by the name of the class, the
  modules and names of its bases in order, and the public attributes that are not
  \<^verbatim>\<open>None\<close>, with the entries of the dictionaries and the iteration orders of the sets
  among them; not by the order of the namespace or by anything else in the store.
\<close>

lemma generate_spider_code_cong:
  assumes "distinct (map fst (cls_dict (classes st a)))"
      and "distinct (map fst (cls_dict (classes st' b)))"
      and "cls_name (classes st a) = cls_name (classes st' b)"
      and "map (\<lambda>c. (format_value st (cls_module (classes st c)), cls_name (classes st c)))
             (cls_bases (classes st a))
             = map (\<lambda>c. (format_value st' (cls_module (classes st' c)), cls_name (classes st' c)))
                 (cls_bases (classes st' b))"
      and "set (spider_attributes (cls_dict (classes st a)))
             = set (spider_attributes (cls_dict (classes st' b)))"
      and "stores_agree st st' (spider_attributes (cls_dict (classes st a)))"
  shows "generate_spider_code st a = generate_spider_code st' b"
proof -
  let ?A = "spider_attributes (cls_dict (classes st a))"
  let ?B = "spider_attributes (cls_dict (classes st' b))"
  from assms(1) have dA: "distinct (map fst ?A)" by (rule spider_attributes_distinct)
  from assms(2) have dB: "distinct (map fst ?B)" by (rule spider_attributes_distinct)
  have dso: "distinct default_sort_order" by (simp add: default_sort_order_def)
  from dA dB assms(5) dso have same:
    "spider_attributes_sorted default_sort_order ?A = spider_attributes_sorted default_sort_order ?B"
    by (rule spider_attributes_sorted_cong)
  from dA dso have "set (spider_attributes_sorted default_sort_order ?A) = set ?A"
    by (rule set_spider_attributes_sorted)
  with assms(6) have "stores_agree st st' (spider_attributes_sorted default_sort_order ?A)"
    by (auto intro: stores_agree_set)
  then have "generate_spider_attributes_code st a default_sort_order
              = generate_spider_attributes_code st' b default_sort_order"
    unfolding generate_spider_attributes_code_def same [symmetric]
    by (rule render_attributes_heap_cong)
  moreover from assms(3,4) have "class_header st a = class_header st' b"
    by (rule class_header_cong)
  ultimately show ?thesis by (simp add: generate_spider_code_eq split: sum.split)
qed

lemma join_eq:
  "join sep xs = concat (map (\<lambda>x. x @ sep) (butlast xs)) @ (if xs = [] then [] else last xs)"
  by (induction sep xs rule: join.induct) simp_all

subsection \<open>Attributes that are not rendered\<close>

lemma spider_attributes_del_hidden:
  assumes "distinct (map fst d)"
      and "startswith key ''_'' \<or> map_of d key = Some PNone"
  shows "spider_attributes (filter (\<lambda>kv. fst kv \<noteq> key) d) = spider_attributes d"
proof -
  from assms(1) have d': "distinct (map fst (filter (\<lambda>kv. fst kv \<noteq> key) d))"
    by (simp add: distinct_map_filter)
  let ?P = "\<lambda>(k, v). \<not> startswith k ''_'' \<and> v \<noteq> PNone"
  have other: "fst kv \<noteq> key" if kv: "kv \<in> set d" and P: "?P kv" for kv
  proof
    assume eq: "fst kv = key"
    obtain k v where [simp]: "kv = (k, v)" by (cases kv)
    from P have pub: "\<not> startswith k ''_''" and val: "v \<noteq> PNone" by simp_all
    from assms(2) pub eq have "map_of d k = Some PNone" by auto
    with assms(1) kv have "v = PNone" by simp
    with val show False by simp
  qed
  have "filter ?P (filter (\<lambda>kv. fst kv \<noteq> key) d) = filter (\<lambda>kv. fst kv \<noteq> key \<and> ?P kv) d"
    by (rule filter_filter)
  also have "\<dots> = filter ?P d"
    by (rule filter_cong) (use other in blast)+
  finally have "filter ?P (filter (\<lambda>kv. fst kv \<noteq> key) d) = filter ?P d" .
  with assms(1) d' show ?thesis by (simp add: spider_attributes_filter)
qed

lemma hidden_not_in_spider_attributes:
  assumes "distinct (map fst d)"
      and "startswith key ''_'' \<or> map_of d key = Some PNone"
  shows "key \<notin> fst ` set (spider_attributes d)"
proof
  assume "key \<in> fst ` set (spider_attributes d)"
  then obtain v where "(key, v) \<in> set (spider_attributes d)" by force
  with assms(1) have kv: "(key, v) \<in> set d" and pub: "\<not> startswith key ''_''" and val: "v \<noteq> PNone"
    by (simp_all add: spider_attributes_filter)
  from assms(2) pub have "map_of d key = Some PNone" by simp
  with assms(1) kv have "v = PNone" by simp
  with val show False by simp
qed

lemma generate_spider_attributes_code_del:
  "generate_spider_attributes_code (del_attribute st cls key) spider sort_order =
     render_attributes st []
       (spider_attributes_sorted sort_order
          (spider_attributes (cls_dict (classes (del_attribute st cls key) spider))))"
proof -
  have "\<And>code items. render_attributes (del_attribute st cls key) code items
                       = render_attributes st code items"
    by (rule render_attributes_heap_cong) (simp add: stores_agree_def del_attribute_def list_all_iff split: pyval.split)
  then show ?thesis by (simp add: generate_spider_attributes_code_def)
qed

lemma format_value_cong:
  "format_text st' = format_text st \<Longrightarrow> heap st' = heap st \<Longrightarrow>
   format_value st' v = format_value st v"
  by (simp add: format_value_def split: pyval.split)

lemma class_header_del:
  "class_header (del_attribute st cls key) spider = class_header st spider"
proof -
  have "format_value (del_attribute st cls key) v = format_value st v" for v
    by (rule format_value_cong) (simp_all add: del_attribute_def)
  then show ?thesis
    by (intro class_header_cong) (simp_all add: del_attribute_def)
qed

subsection \<open>Attribute access and the two wikidata blocks\<close>

lemma map_of_dict_setitem:
  "map_of (dict_setitem d k v) k' = (if k' = k then Some v else map_of d k')"
  by (induction d) auto

lemma dict_setitem_not_empty:
  "dict_setitem d k v \<noteq> []"
  by (cases d) (auto split: if_splits)

lemma keys_dict_setitem:
  "map fst (dict_setitem d k v) = (if k \<in> fst ` set d then map fst d else map fst d @ [k])"
  by (induction d) (fastforce simp: image_iff)+

lemma keys_dict_setitem_set:
  "fst ` set (dict_setitem d k v) = insert k (fst ` set d)"
proof -
  have "set (map fst (dict_setitem d k v)) = insert k (set (map fst d))"
    unfolding keys_dict_setitem by auto
  then show ?thesis by simp
qed

lemma distinct_dict_setitem:
  "distinct (map fst d) \<Longrightarrow> distinct (map fst (dict_setitem d k v))"
  by (simp add: keys_dict_setitem)

lemma lookup_classes_cong:
  "(\<And>c. c \<in> set cs \<Longrightarrow> map_of (cls_dict (classes st c)) name = map_of (cls_dict (classes st' c)) name)
   \<Longrightarrow> lookup_classes st cs name = lookup_classes st' cs name"
  by (induction cs) (simp_all split: option.split)

lemma class_getattr_cong:
  assumes "cls_ancestors (classes st' cls) = cls_ancestors (classes st cls)"
      and "\<And>c. c \<in> set (cls # cls_ancestors (classes st cls)) \<Longrightarrow>
             map_of (cls_dict (classes st' c)) name = map_of (cls_dict (classes st c)) name"
  shows "class_getattr st' cls name = class_getattr st cls name"
  unfolding class_getattr_def assms(1) by (rule lookup_classes_cong) (rule assms(2))

lemma class_getattr_heap [simp]:
  "class_getattr (st\<lparr>heap := h\<rparr>) cls name = class_getattr st cls name"
  by (rule class_getattr_cong) simp_all

lemma class_getattr_next_addr [simp]:
  "class_getattr (st\<lparr>next_addr := n\<rparr>) cls name = class_getattr st cls name"
  by (rule class_getattr_cong) simp_all

lemma class_getattr_own:
  "map_of (cls_dict (classes st cls)) name = Some v \<Longrightarrow> class_getattr st cls name = Some v"
  by (simp add: class_getattr_def)

lemma class_getattr_setattr_same:
  "class_getattr (namespace_store st cls name v) cls name = Some v"
  by (simp add: class_getattr_def namespace_store_def map_of_dict_setitem)

lemma class_getattr_setattr_other_name:
  "name' \<noteq> name \<Longrightarrow>
   class_getattr (namespace_store st cls name v) c name' = class_getattr st c name'"
  by (rule class_getattr_cong) (simp_all add: namespace_store_def map_of_dict_setitem)

lemma class_setattr_plain:
  "name \<notin> set special_attributes \<Longrightarrow>
   class_setattr st cls name v = Inr (namespace_store st cls name v)"
  by (simp add: class_setattr_def special_attributes_def)

lemma class_setattr_item_attributes [simp]:
  "class_setattr st cls ''item_attributes'' v = Inr (namespace_store st cls ''item_attributes'' v)"
  by (rule class_setattr_plain) (simp add: special_attributes_def readonly_attributes_def)

lemma class_setattr_name [simp]:
  "class_setattr st cls ''name'' v = Inr (namespace_store st cls ''name'' v)"
  by (rule class_setattr_plain) (simp add: special_attributes_def readonly_attributes_def)

lemma truthy_heap_upd:
  "truthy st v \<Longrightarrow> h \<noteq> [] \<Longrightarrow> truthy (st\<lparr>heap := (heap st)(a := h)\<rparr>) v"
  by (cases v) simp_all

lemma fold_wikidata_skip:
  "\<not> (\<exists>w. given st kwargs wk w) \<Longrightarrow> fold_wikidata wk lk st cls kwargs = Inr st"
  by (auto simp: fold_wikidata_def given_def split: option.splits)

lemma wikidata_tail:
  assumes get: "class_getattr st1 cls ''item_attributes'' = Some (PDict t)"
      and mono: "\<And>v h. truthy st v \<Longrightarrow> h \<noteq> [] \<Longrightarrow> truthy (st1\<lparr>heap := (heap st1)(t := h)\<rparr>) v"
  shows "\<exists>H. (case attr_setitem st1 cls ''item_attributes'' wk w of
                Inl e \<Rightarrow> Inl e
              | Inr st2 \<Rightarrow>
                  (case map_of kwargs lk of
                     None \<Rightarrow> Inr st2
                   | Some l \<Rightarrow>
                       if truthy st2 l then attr_setitem st2 cls ''item_attributes'' lk l
                       else Inr st2))
              = Inr (st1\<lparr>heap := (heap st1)(t := H)\<rparr>)
           \<and> H \<noteq> []
           \<and> (wk \<noteq> lk \<longrightarrow> map_of H wk = Some w)
           \<and> (\<forall>l. given st kwargs lk l \<longrightarrow> map_of H lk = Some l)
           \<and> (\<forall>k. k \<noteq> wk \<and> k \<noteq> lk \<longrightarrow> map_of H k = map_of (heap st1 t) k)
           \<and> (distinct (map fst (heap st1 t)) \<longrightarrow> distinct (map fst H))
           \<and> fst ` set H \<subseteq> insert wk (insert lk (fst ` set (heap st1 t)))"
proof -
  let ?h1 = "dict_setitem (heap st1 t) wk w"
  let ?st2 = "st1\<lparr>heap := (heap st1)(t := ?h1)\<rparr>"
  let ?tail = "case attr_setitem st1 cls ''item_attributes'' wk w of
                Inl e \<Rightarrow> Inl e
              | Inr st2 \<Rightarrow>
                  (case map_of kwargs lk of
                     None \<Rightarrow> Inr st2
                   | Some l \<Rightarrow>
                       if truthy st2 l then attr_setitem st2 cls ''item_attributes'' lk l
                       else Inr st2)"
  from get have step: "attr_setitem st1 cls ''item_attributes'' wk w = Inr ?st2"
    by (simp add: attr_setitem_def)
  from get have get2: "class_getattr ?st2 cls ''item_attributes'' = Some (PDict t)" by simp
  show ?thesis
  proof (cases "\<exists>l. map_of kwargs lk = Some l \<and> truthy ?st2 l")
    case True
    then obtain l where l: "map_of kwargs lk = Some l" "truthy ?st2 l" by blast
    let ?h2 = "dict_setitem ?h1 lk l"
    from get2 have "attr_setitem ?st2 cls ''item_attributes'' lk l = Inr (st1\<lparr>heap := (heap st1)(t := ?h2)\<rparr>)"
      by (simp add: attr_setitem_def)
    with step l have "?tail = Inr (st1\<lparr>heap := (heap st1)(t := ?h2)\<rparr>)"
      by simp
    moreover have "?h2 \<noteq> []" by (rule dict_setitem_not_empty)
    moreover have "wk \<noteq> lk \<longrightarrow> map_of ?h2 wk = Some w" by (simp add: map_of_dict_setitem)
    moreover from l have "\<forall>l'. given st kwargs lk l' \<longrightarrow> map_of ?h2 lk = Some l'"
      by (simp add: given_def map_of_dict_setitem)
    moreover have "\<forall>k. k \<noteq> wk \<and> k \<noteq> lk \<longrightarrow> map_of ?h2 k = map_of (heap st1 t) k"
      by (simp add: map_of_dict_setitem)
    moreover have "distinct (map fst (heap st1 t)) \<longrightarrow> distinct (map fst ?h2)"
      by (simp add: distinct_dict_setitem)
    moreover have "fst ` set ?h2 \<subseteq> insert wk (insert lk (fst ` set (heap st1 t)))"
      by (auto simp: keys_dict_setitem_set)
    ultimately show ?thesis by blast
  next
    case False
    with step have "?tail = Inr ?st2"
      by (auto split: option.splits)
    moreover have "?h1 \<noteq> []" by (rule dict_setitem_not_empty)
    moreover have "wk \<noteq> lk \<longrightarrow> map_of ?h1 wk = Some w" by (simp add: map_of_dict_setitem)
    moreover have "\<forall>l'. given st kwargs lk l' \<longrightarrow> map_of ?h1 lk = Some l'"
    proof (intro allI impI)
      fix l' assume g: "given st kwargs lk l'"
      then have "truthy ?st2 l'" by (simp add: given_def mono dict_setitem_not_empty)
      with g False show "map_of ?h1 lk = Some l'" by (simp add: given_def)
    qed
    moreover have "\<forall>k. k \<noteq> wk \<and> k \<noteq> lk \<longrightarrow> map_of ?h1 k = map_of (heap st1 t) k"
      by (simp add: map_of_dict_setitem)
    moreover have "distinct (map fst (heap st1 t)) \<longrightarrow> distinct (map fst ?h1)"
      by (simp add: distinct_dict_setitem)
    moreover have "fst ` set ?h1 \<subseteq> insert wk (insert lk (fst ` set (heap st1 t)))"
      by (auto simp: keys_dict_setitem_set)
    ultimately show ?thesis by blast
  qed
qed

lemma fold_wikidata_existing:
  assumes "given st kwargs wk w"
      and "class_getattr st cls ''item_attributes'' = Some (PDict t)"
  shows "\<exists>H. fold_wikidata wk lk st cls kwargs = Inr (st\<lparr>heap := (heap st)(t := H)\<rparr>)
           \<and> H \<noteq> []
           \<and> (wk \<noteq> lk \<longrightarrow> map_of H wk = Some w)
           \<and> (\<forall>l. given st kwargs lk l \<longrightarrow> map_of H lk = Some l)
           \<and> (\<forall>k. k \<noteq> wk \<and> k \<noteq> lk \<longrightarrow> map_of H k = map_of (heap st t) k)
           \<and> (distinct (map fst (heap st t)) \<longrightarrow> distinct (map fst H))
           \<and> fst ` set H \<subseteq> insert wk (insert lk (fst ` set (heap st t)))"
proof -
  from assms have unfold: "fold_wikidata wk lk st cls kwargs =
     (case attr_setitem st cls ''item_attributes'' wk w of
                Inl e \<Rightarrow> Inl e
              | Inr st2 \<Rightarrow>
                  (case map_of kwargs lk of
                     None \<Rightarrow> Inr st2
                   | Some l \<Rightarrow>
                       if truthy st2 l then attr_setitem st2 cls ''item_attributes'' lk l
                       else Inr st2))"
    by (simp add: fold_wikidata_def given_def class_hasattr_def)
  show ?thesis unfolding unfold
    by (rule wikidata_tail [OF assms(2)]) (rule truthy_heap_upd)
qed

lemma fold_wikidata_fresh:
  assumes "given st kwargs wk w"
      and "class_getattr st cls ''item_attributes'' = None"
  shows "\<exists>H. fold_wikidata wk lk st cls kwargs =
               Inr (st\<lparr>classes := (classes st)
                         (cls := (classes st cls)
                            \<lparr>cls_dict := dict_setitem (cls_dict (classes st cls))
                                           ''item_attributes'' (PDict (next_addr st))\<rparr>),
                       heap := (heap st)(next_addr st := H),
                       next_addr := Suc (next_addr st)\<rparr>)
           \<and> H \<noteq> []
           \<and> (wk \<noteq> lk \<longrightarrow> map_of H wk = Some w)
           \<and> (\<forall>l. given st kwargs lk l \<longrightarrow> map_of H lk = Some l)
           \<and> (\<forall>k. k \<noteq> wk \<and> k \<noteq> lk \<longrightarrow> map_of H k = None)
           \<and> distinct (map fst H)
           \<and> fst ` set H \<subseteq> {wk, lk}"
proof -
  let ?n = "next_addr st"
  let ?st1 = "namespace_store (st\<lparr>heap := (heap st)(?n := []), next_addr := Suc ?n\<rparr>) cls
                ''item_attributes'' (PDict ?n)"
  from assms have unfold: "fold_wikidata wk lk st cls kwargs =
     (case attr_setitem ?st1 cls ''item_attributes'' wk w of
                Inl e \<Rightarrow> Inl e
              | Inr st2 \<Rightarrow>
                  (case map_of kwargs lk of
                     None \<Rightarrow> Inr st2
                   | Some l \<Rightarrow>
                       if truthy st2 l then attr_setitem st2 cls ''item_attributes'' lk l
                       else Inr st2))"
    by (simp add: fold_wikidata_def given_def class_hasattr_def new_dict_def)
  have get: "class_getattr ?st1 cls ''item_attributes'' = Some (PDict ?n)"
    by (rule class_getattr_setattr_same)
  have heap1: "heap ?st1 = (heap st)(?n := [])" by (simp add: namespace_store_def)
  have mono: "truthy (?st1\<lparr>heap := (heap ?st1)(?n := h)\<rparr>) v" if "truthy st v" "h \<noteq> []" for v h
    using that by (cases v) (simp_all add: heap1)
  from wikidata_tail [OF get mono, where wk = wk and w = w and kwargs = kwargs and lk = lk and st = st]
  obtain H where H: "fold_wikidata wk lk st cls kwargs = Inr (?st1\<lparr>heap := (heap ?st1)(?n := H)\<rparr>)"
    "H \<noteq> []" "wk \<noteq> lk \<longrightarrow> map_of H wk = Some w"
    "\<forall>l. given st kwargs lk l \<longrightarrow> map_of H lk = Some l"
    "\<forall>k. k \<noteq> wk \<and> k \<noteq> lk \<longrightarrow> map_of H k = map_of (heap ?st1 ?n) k"
    "distinct (map fst (heap ?st1 ?n)) \<longrightarrow> distinct (map fst H)"
    "fst ` set H \<subseteq> insert wk (insert lk (fst ` set (heap ?st1 ?n)))"
    unfolding unfold by blast
  have "?st1\<lparr>heap := (heap ?st1)(?n := H)\<rparr> =
          st\<lparr>classes := (classes st)
                         (cls := (classes st cls)
                            \<lparr>cls_dict := dict_setitem (cls_dict (classes st cls))
                                           ''item_attributes'' (PDict (next_addr st))\<rparr>),
                       heap := (heap st)(next_addr st := H),
                       next_addr := Suc (next_addr st)\<rparr>"
    by (simp add: namespace_store_def)
  with H(1) have r: "fold_wikidata wk lk st cls kwargs =
               Inr (st\<lparr>classes := (classes st)
                         (cls := (classes st cls)
                            \<lparr>cls_dict := dict_setitem (cls_dict (classes st cls))
                                           ''item_attributes'' (PDict (next_addr st))\<rparr>),
                       heap := (heap st)(next_addr st := H),
                       next_addr := Suc (next_addr st)\<rparr>)"
    by (simp only:)
  from H(5) have o: "\<forall>k. k \<noteq> wk \<and> k \<noteq> lk \<longrightarrow> map_of H k = None" by (simp add: heap1)
  from H(6) have d: "distinct (map fst H)" by (simp add: heap1)
  from H(7) have ks: "fst ` set H \<subseteq> {wk, lk}" by (simp add: heap1)
  from r H(2,3,4) o d ks show ?thesis by blast
qed

lemma fold_wikidata_spec:
  assumes ok: "item_attributes_ok st cls" and ne: "wk \<noteq> lk"
  shows "\<exists>st1. fold_wikidata wk lk st cls kwargs = Inr st1
     \<and> item_attributes_ok st1 cls
     \<and> item_attributes_address st1 cls = item_attributes_address st cls
     \<and> ((\<exists>w. given st kwargs wk w) \<longrightarrow>
          class_getattr st1 cls ''item_attributes'' = Some (PDict (item_attributes_address st cls)))
     \<and> (\<forall>w. given st kwargs wk w \<longrightarrow>
          map_of (heap st1 (item_attributes_address st cls)) wk = Some w)
     \<and> (\<forall>w l. given st kwargs wk w \<and> given st kwargs lk l \<longrightarrow>
          map_of (heap st1 (item_attributes_address st cls)) lk = Some l)
     \<and> (\<forall>v. truthy st v \<longrightarrow> truthy st1 v)
     \<and> (class_getattr st cls ''item_attributes'' \<noteq> None \<longrightarrow>
          classes st1 = classes st \<and> next_addr st1 = next_addr st
          \<and> (\<forall>a k. k \<noteq> wk \<and> k \<noteq> lk \<longrightarrow> map_of (heap st1 a) k = map_of (heap st a) k))
     \<and> (\<forall>e. distinct (map fst (heap st e)) \<longrightarrow> distinct (map fst (heap st1 e)))
     \<and> (\<forall>c. c \<noteq> cls \<longrightarrow> classes st1 c = classes st c)
     \<and> cls_ancestors (classes st1 cls) = cls_ancestors (classes st cls)
     \<and> (\<not> (\<exists>w. given st kwargs wk w) \<longrightarrow> st1 = st)"
proof (cases "\<exists>w. given st kwargs wk w")
  case False
  then have "fold_wikidata wk lk st cls kwargs = Inr st" by (rule fold_wikidata_skip)
  with False ok show ?thesis by simp
next
  case True
  then obtain w where w: "given st kwargs wk w" by blast
  then have w_unique: "\<And>w'. given st kwargs wk w' \<Longrightarrow> w' = w" by (simp add: given_def)
  show ?thesis
  proof (cases "class_getattr st cls ''item_attributes''")
    case None
    let ?n = "next_addr st"
    from None have addr: "item_attributes_address st cls = ?n"
      by (simp add: item_attributes_address_def)
    from fold_wikidata_fresh [OF w None, of lk] obtain H where
      r: "fold_wikidata wk lk st cls kwargs =
               Inr (st\<lparr>classes := (classes st)
                         (cls := (classes st cls)
                            \<lparr>cls_dict := dict_setitem (cls_dict (classes st cls))
                                           ''item_attributes'' (PDict (next_addr st))\<rparr>),
                       heap := (heap st)(next_addr st := H),
                       next_addr := Suc (next_addr st)\<rparr>)"
      and H: "H \<noteq> []" "wk \<noteq> lk \<longrightarrow> map_of H wk = Some w"
        "\<forall>l. given st kwargs lk l \<longrightarrow> map_of H lk = Some l"
        "distinct (map fst H)"
      by blast
    let ?st1 = "st\<lparr>classes := (classes st)
                         (cls := (classes st cls)
                            \<lparr>cls_dict := dict_setitem (cls_dict (classes st cls))
                                           ''item_attributes'' (PDict (next_addr st))\<rparr>),
                       heap := (heap st)(next_addr st := H),
                       next_addr := Suc (next_addr st)\<rparr>"
    have get1: "class_getattr ?st1 cls ''item_attributes'' = Some (PDict ?n)"
      by (rule class_getattr_own) (simp add: map_of_dict_setitem)
    then have ok1: "item_attributes_ok ?st1 cls"
      and addr1: "item_attributes_address ?st1 cls = ?n"
      by (simp_all add: item_attributes_ok_def item_attributes_address_def)
    have tr: "truthy ?st1 v" if "truthy st v" for v
      using that H(1) by (cases v) simp_all
    from H(2) ne w_unique have f4: "\<forall>w'. given st kwargs wk w' \<longrightarrow> map_of (heap ?st1 ?n) wk = Some w'"
      by auto
    from H(3) have f5: "\<forall>w' l. given st kwargs wk w' \<and> given st kwargs lk l \<longrightarrow>
          map_of (heap ?st1 ?n) lk = Some l"
      by simp
    from H(4) have f8: "\<forall>e. distinct (map fst (heap st e)) \<longrightarrow> distinct (map fst (heap ?st1 e))"
      by simp
    have f9: "\<forall>c. c \<noteq> cls \<longrightarrow> classes ?st1 c = classes st c" by simp
    have f10: "cls_ancestors (classes ?st1 cls) = cls_ancestors (classes st cls)" by simp
    from r ok1 addr1 get1 f4 f5 tr f8 f9 f10 None True show ?thesis
      unfolding addr by (intro exI [of _ ?st1] conjI) (blast | simp only:)+
  next
    case (Some x)
    with ok obtain t where t: "class_getattr st cls ''item_attributes'' = Some (PDict t)"
      by (cases x) (simp_all add: item_attributes_ok_def)
    then have addr: "item_attributes_address st cls = t"
      by (simp add: item_attributes_address_def)
    from fold_wikidata_existing [OF w t, of lk] obtain H where
      r: "fold_wikidata wk lk st cls kwargs = Inr (st\<lparr>heap := (heap st)(t := H)\<rparr>)"
      and H: "H \<noteq> []" "wk \<noteq> lk \<longrightarrow> map_of H wk = Some w"
        "\<forall>l. given st kwargs lk l \<longrightarrow> map_of H lk = Some l"
        "\<forall>k. k \<noteq> wk \<and> k \<noteq> lk \<longrightarrow> map_of H k = map_of (heap st t) k"
        "distinct (map fst (heap st t)) \<longrightarrow> distinct (map fst H)"
      by blast
    let ?st1 = "st\<lparr>heap := (heap st)(t := H)\<rparr>"
    from t have get1: "class_getattr ?st1 cls ''item_attributes'' = Some (PDict t)" by simp
    then have ok1: "item_attributes_ok ?st1 cls"
      and addr1: "item_attributes_address ?st1 cls = t"
      by (simp_all add: item_attributes_ok_def item_attributes_address_def)
    have tr: "truthy ?st1 v" if "truthy st v" for v
      using that H(1) by (rule truthy_heap_upd)
    from H(2) ne w_unique have f4: "\<forall>w'. given st kwargs wk w' \<longrightarrow> map_of (heap ?st1 t) wk = Some w'"
      by auto
    from H(3) have f5: "\<forall>w' l. given st kwargs wk w' \<and> given st kwargs lk l \<longrightarrow>
          map_of (heap ?st1 t) lk = Some l"
      by simp
    from H(4) have f7: "classes ?st1 = classes st \<and> next_addr ?st1 = next_addr st
          \<and> (\<forall>a k. k \<noteq> wk \<and> k \<noteq> lk \<longrightarrow> map_of (heap ?st1 a) k = map_of (heap st a) k)"
      by simp
    from H(5) have f8: "\<forall>e. distinct (map fst (heap st e)) \<longrightarrow> distinct (map fst (heap ?st1 e))"
      by simp
    have f9: "\<forall>c. c \<noteq> cls \<longrightarrow> classes ?st1 c = classes st c" by simp
    have f10: "cls_ancestors (classes ?st1 cls) = cls_ancestors (classes st cls)" by simp
    from r ok1 addr1 get1 f4 f5 tr f7 f8 f9 f10 True show ?thesis
      unfolding addr by (intro exI [of _ ?st1] conjI) (blast | simp only:)+
  qed
qed

subsection \<open>The renaming and the pre-extracted attributes\<close>

lemma map_of_dict_update_other:
  "k \<notin> fst ` set items \<Longrightarrow> map_of (dict_update d items) k = map_of d k"
  by (induction items arbitrary: d) (auto simp: map_of_dict_setitem)

lemma map_of_dict_update_item:
  "distinct (map fst items) \<Longrightarrow> (k, v) \<in> set items \<Longrightarrow> map_of (dict_update d items) k = Some v"
proof (induction items arbitrary: d)
  case Nil
  then show ?case by simp
next
  case (Cons kv items)
  obtain k' v' where kv: "kv = (k', v')" by (cases kv)
  show ?case
  proof (cases "(k, v) = (k', v')")
    case True
    with Cons.prems kv have "k \<notin> fst ` set items" by auto
    then have "map_of (dict_update (dict_setitem d k v) items) k = map_of (dict_setitem d k v) k"
      by (rule map_of_dict_update_other)
    with True kv show ?thesis by (simp add: map_of_dict_setitem)
  next
    case False
    with Cons.prems kv have "(k, v) \<in> set items" and "distinct (map fst items)" by auto
    then have "map_of (dict_update (dict_setitem d k' v') items) k = Some v"
      using Cons.IH by blast
    with kv show ?thesis by simp
  qed
qed

lemma store_items_Nil [simp]:
  "store_items st cls [] = st"
  by (simp add: store_items_def)

lemma store_items_Cons:
  "store_items (namespace_store st cls k v) cls items = store_items st cls ((k, v) # items)"
  by (simp add: store_items_def namespace_store_def fun_eq_iff)

text \<open>
  The loop of line 154 over names that \<^verbatim>\<open>setattr\<close> writes to the namespace returns, and
  the namespace is then updated with the entries.
\<close>

lemma setattr_loop_plain:
  "list_all (\<lambda>k. k \<notin> set special_attributes) (map fst items) \<Longrightarrow>
   setattr_loop st cls items = Inr (store_items st cls items)"
proof (induction items arbitrary: st)
  case Nil
  then show ?case by simp
next
  case (Cons kv items)
  obtain k v where kv: "kv = (k, v)" by (cases kv)
  from Cons.prems kv have k: "k \<notin> set special_attributes"
    and rest: "list_all (\<lambda>k. k \<notin> set special_attributes) (map fst items)"
    by simp_all
  from k have "class_setattr st cls k v = Inr (namespace_store st cls k v)"
    by (rule class_setattr_plain)
  with Cons.IH [OF rest] show ?case
    unfolding kv by (simp add: store_items_Cons)
qed

lemma rename_spider_eq:
  "rename_spider st cls kwargs = Inr (renamed st cls kwargs)"
  by (simp add: rename_spider_def renamed_def split: option.split)

lemma renamed_eq:
  "renamed st cls kwargs =
     (if \<exists>n. given st kwargs ''spider_key'' n
      then namespace_store st cls ''name'' (the (map_of kwargs ''spider_key''))
      else st)"
  by (auto simp: renamed_def given_def split: option.splits)

lemma set_extracted_eq:
  assumes "extracted_attributes_ok st kwargs"
  shows "\<exists>items. set_extracted st cls kwargs = Inr (store_items st cls items)
           \<and> (\<forall>e. map_of kwargs ''extracted_attributes'' = Some (PDict e) \<longrightarrow>
                 items = heap st e)
           \<and> ((\<forall>e. map_of kwargs ''extracted_attributes'' \<noteq> Some (PDict e)) \<longrightarrow> items = [])"
proof (cases "map_of kwargs ''extracted_attributes''")
  case None
  then have "set_extracted st cls kwargs = Inr (store_items st cls [])"
    by (simp add: set_extracted_def)
  with None show ?thesis by (intro exI [of _ "[]"]) simp
next
  case (Some x)
  show ?thesis
  proof (cases "\<exists>e. x = PDict e")
    case True
    then obtain e where e: "x = PDict e" by blast
    with assms Some have "list_all (\<lambda>k. k \<notin> set special_attributes) (map fst (heap st e))"
      by (simp add: extracted_attributes_ok_def)
    then have "setattr_loop st cls (heap st e) = Inr (store_items st cls (heap st e))"
      by (rule setattr_loop_plain)
    with Some e have "set_extracted st cls kwargs = Inr (store_items st cls (heap st e))"
      by (cases "heap st e = []") (simp_all add: set_extracted_def)
    with Some e show ?thesis by (intro exI [of _ "heap st e"]) simp
  next
    case False
    with assms Some have "\<not> truthy st x"
      by (cases x) (simp_all add: extracted_attributes_ok_def)
    with Some have "set_extracted st cls kwargs = Inr (store_items st cls [])"
      by (simp add: set_extracted_def)
    with Some False show ?thesis by (intro exI [of _ "[]"]) simp
  qed
qed

lemma heap_store_items [simp]:
  "heap (store_items st cls items) = heap st"
  by (simp add: store_items_def)

lemma heap_renamed [simp]:
  "heap (renamed st cls kwargs) = heap st"
  by (simp add: renamed_eq namespace_store_def)

lemma class_getattr_store_items_other:
  "name \<notin> fst ` set items \<Longrightarrow>
   class_getattr (store_items st cls items) c name = class_getattr st c name"
  by (rule class_getattr_cong) (simp_all add: store_items_def map_of_dict_update_other)

lemma class_getattr_renamed_other:
  "name \<noteq> ''name'' \<Longrightarrow>
   class_getattr (renamed st cls kwargs) c name = class_getattr st c name"
  by (simp add: renamed_eq class_getattr_setattr_other_name)

lemma own_name_renamed:
  "given st kwargs ''spider_key'' n \<Longrightarrow>
   map_of (cls_dict (classes (renamed st cls kwargs) cls)) ''name'' = Some n"
  by (auto simp: renamed_eq given_def namespace_store_def map_of_dict_setitem)

lemma own_store_items_other:
  "name \<notin> fst ` set items \<Longrightarrow>
   map_of (cls_dict (classes (store_items st cls items) cls)) name
     = map_of (cls_dict (classes st cls)) name"
  by (simp add: store_items_def map_of_dict_update_other)

lemma own_store_items_item:
  "distinct (map fst items) \<Longrightarrow> (k, v) \<in> set items \<Longrightarrow>
   map_of (cls_dict (classes (store_items st cls items) cls)) k = Some v"
  by (simp add: store_items_def map_of_dict_update_item)

lemma given_mono:
  "given st kwargs key v \<Longrightarrow> (\<forall>v. truthy st v \<longrightarrow> truthy st' v) \<Longrightarrow> given st' kwargs key v"
  by (simp add: given_def)

text \<open>What a wikidata block that returns has done to the store.\<close>

lemma fold_wikidata_not_dict:
  assumes "given st kwargs wk w"
      and "class_getattr st cls ''item_attributes'' = Some x"
      and "\<forall>t. x \<noteq> PDict t"
  shows "fold_wikidata wk lk st cls kwargs = Inl TypeError"
  using assms
  by (cases x) (simp_all add: fold_wikidata_def given_def class_hasattr_def attr_setitem_def)

lemma fold_wikidata_cases:
  assumes "fold_wikidata wk lk st cls kwargs = Inr st1"
  obtains (skip) "st1 = st"
  | (existing) t H where
      "class_getattr st cls ''item_attributes'' = Some (PDict t)"
      "st1 = st\<lparr>heap := (heap st)(t := H)\<rparr>"
      "H \<noteq> []"
      "fst ` set H \<subseteq> insert wk (insert lk (fst ` set (heap st t)))"
  | (fresh) H where
      "class_getattr st cls ''item_attributes'' = None"
      "st1 = st\<lparr>classes := (classes st)
                         (cls := (classes st cls)
                            \<lparr>cls_dict := dict_setitem (cls_dict (classes st cls))
                                           ''item_attributes'' (PDict (next_addr st))\<rparr>),
                       heap := (heap st)(next_addr st := H),
                       next_addr := Suc (next_addr st)\<rparr>"
      "H \<noteq> []"
      "fst ` set H \<subseteq> {wk, lk}"
proof (cases "\<exists>w. given st kwargs wk w")
  case False
  then have "fold_wikidata wk lk st cls kwargs = Inr st" by (rule fold_wikidata_skip)
  with assms have "st1 = st" by simp
  then show ?thesis by (rule skip)
next
  case True
  then obtain w where w: "given st kwargs wk w" by blast
  show ?thesis
  proof (cases "class_getattr st cls ''item_attributes''")
    case None
    from fold_wikidata_fresh [OF w None, of lk] obtain H where
      "fold_wikidata wk lk st cls kwargs =
               Inr (st\<lparr>classes := (classes st)
                         (cls := (classes st cls)
                            \<lparr>cls_dict := dict_setitem (cls_dict (classes st cls))
                                           ''item_attributes'' (PDict (next_addr st))\<rparr>),
                       heap := (heap st)(next_addr st := H),
                       next_addr := Suc (next_addr st)\<rparr>)"
      and "H \<noteq> []" and "fst ` set H \<subseteq> {wk, lk}"
      by blast
    with assms None show ?thesis by (intro fresh [of H]) simp_all
  next
    case (Some x)
    show ?thesis
    proof (cases "\<exists>t. x = PDict t")
      case True
      then obtain t where t: "class_getattr st cls ''item_attributes'' = Some (PDict t)"
        using Some by blast
      from fold_wikidata_existing [OF w t, of lk] obtain H where
        "fold_wikidata wk lk st cls kwargs = Inr (st\<lparr>heap := (heap st)(t := H)\<rparr>)"
        and "H \<noteq> []" and "fst ` set H \<subseteq> insert wk (insert lk (fst ` set (heap st t)))"
        by blast
      with assms t show ?thesis by (intro existing [of t H]) simp_all
    next
      case False
      then have "\<forall>t. x \<noteq> PDict t" by blast
      with w Some have "fold_wikidata wk lk st cls kwargs = Inl TypeError"
        by (rule fold_wikidata_not_dict)
      with assms show ?thesis by simp
    qed
  qed
qed

lemma fold_wikidata_keys:
  assumes "fold_wikidata wk lk st cls kwargs = Inr st1"
  shows "fst ` set (heap st1 e) \<subseteq> insert wk (insert lk (fst ` set (heap st e)))"
  using assms
proof (cases rule: fold_wikidata_cases)
  case skip
  then show ?thesis by auto
next
  case (existing t H)
  then show ?thesis by (cases "e = t") auto
next
  case (fresh H)
  then show ?thesis by (cases "e = next_addr st") auto
qed

lemma distinct_dict_update:
  "distinct (map fst d) \<Longrightarrow> distinct (map fst (dict_update d items))"
  by (induction items arbitrary: d) (auto simp: distinct_dict_setitem)

lemma fold_wikidata_namespace_distinct:
  assumes "fold_wikidata wk lk st cls kwargs = Inr st1"
      and "distinct (map fst (cls_dict (classes st cls)))"
  shows "distinct (map fst (cls_dict (classes st1 cls)))"
  using assms(1)
proof (cases rule: fold_wikidata_cases)
  case skip
  with assms(2) show ?thesis by simp
next
  case (existing t H)
  with assms(2) show ?thesis by simp
next
  case (fresh H)
  with assms(2) show ?thesis by (simp add: distinct_dict_setitem)
qed

text \<open>The two wikidata blocks in sequence, lines 136 to 148.\<close>

lemma wikidata_blocks_spec:
  assumes ok: "item_attributes_ok st cls"
  shows "\<exists>st1 st2.
       fold_wikidata ''brand_wikidata'' ''brand'' st cls kwargs = Inr st1
     \<and> fold_wikidata ''operator_wikidata'' ''operator'' st1 cls kwargs = Inr st2
     \<and> (\<forall>w. given st kwargs ''brand_wikidata'' w \<longrightarrow>
          map_of (heap st2 (item_attributes_address st cls)) ''brand_wikidata'' = Some w)
     \<and> (\<forall>w l. given st kwargs ''brand_wikidata'' w \<and> given st kwargs ''brand'' l \<longrightarrow>
          map_of (heap st2 (item_attributes_address st cls)) ''brand'' = Some l)
     \<and> (\<forall>w. given st kwargs ''operator_wikidata'' w \<longrightarrow>
          map_of (heap st2 (item_attributes_address st cls)) ''operator_wikidata'' = Some w)
     \<and> (\<forall>w l. given st kwargs ''operator_wikidata'' w \<and> given st kwargs ''operator'' l \<longrightarrow>
          map_of (heap st2 (item_attributes_address st cls)) ''operator'' = Some l)
     \<and> ((\<exists>w. given st kwargs ''brand_wikidata'' w) \<or> (\<exists>w. given st kwargs ''operator_wikidata'' w) \<longrightarrow>
          class_getattr st2 cls ''item_attributes'' = Some (PDict (item_attributes_address st cls)))
     \<and> (\<forall>v. truthy st v \<longrightarrow> truthy st2 v)
     \<and> (class_getattr st cls ''item_attributes'' \<noteq> None \<longrightarrow>
          classes st2 = classes st \<and> next_addr st2 = next_addr st)
     \<and> (\<forall>e. distinct (map fst (heap st e)) \<longrightarrow> distinct (map fst (heap st2 e)))
     \<and> (\<forall>c. c \<noteq> cls \<longrightarrow> classes st2 c = classes st c)
     \<and> cls_ancestors (classes st2 cls) = cls_ancestors (classes st cls)
     \<and> (\<not> (\<exists>w. given st kwargs ''brand_wikidata'' w) \<and> \<not> (\<exists>w. given st kwargs ''operator_wikidata'' w)
          \<longrightarrow> st2 = st)"
proof -
  let ?t = "item_attributes_address st cls"
  have ne1: "''brand_wikidata'' \<noteq> ''brand''" and ne2: "''operator_wikidata'' \<noteq> ''operator''"
    by simp_all
  from fold_wikidata_spec [OF ok ne1, of kwargs] obtain st1 where
    r1: "fold_wikidata ''brand_wikidata'' ''brand'' st cls kwargs = Inr st1"
    and ok1: "item_attributes_ok st1 cls"
    and addr1: "item_attributes_address st1 cls = ?t"
    and get1: "(\<exists>w. given st kwargs ''brand_wikidata'' w) \<longrightarrow>
          class_getattr st1 cls ''item_attributes'' = Some (PDict ?t)"
    and b1: "\<forall>w. given st kwargs ''brand_wikidata'' w \<longrightarrow> map_of (heap st1 ?t) ''brand_wikidata'' = Some w"
    and b2: "\<forall>w l. given st kwargs ''brand_wikidata'' w \<and> given st kwargs ''brand'' l \<longrightarrow>
          map_of (heap st1 ?t) ''brand'' = Some l"
    and tr1: "\<forall>v. truthy st v \<longrightarrow> truthy st1 v"
    and ex1: "class_getattr st cls ''item_attributes'' \<noteq> None \<longrightarrow>
          classes st1 = classes st \<and> next_addr st1 = next_addr st
          \<and> (\<forall>a k. k \<noteq> ''brand_wikidata'' \<and> k \<noteq> ''brand'' \<longrightarrow>
                map_of (heap st1 a) k = map_of (heap st a) k)"
    and d1: "\<forall>e. distinct (map fst (heap st e)) \<longrightarrow> distinct (map fst (heap st1 e))"
    and fr1: "\<forall>c. c \<noteq> cls \<longrightarrow> classes st1 c = classes st c"
    and an1: "cls_ancestors (classes st1 cls) = cls_ancestors (classes st cls)"
    and sk1: "\<not> (\<exists>w. given st kwargs ''brand_wikidata'' w) \<longrightarrow> st1 = st"
    by (elim exE conjE) (rule that; assumption)
  from fold_wikidata_spec [OF ok1 ne2, of kwargs] obtain st2 where
    r2: "fold_wikidata ''operator_wikidata'' ''operator'' st1 cls kwargs = Inr st2"
    and get2: "(\<exists>w. given st1 kwargs ''operator_wikidata'' w) \<longrightarrow>
          class_getattr st2 cls ''item_attributes'' = Some (PDict ?t)"
    and o1: "\<forall>w. given st1 kwargs ''operator_wikidata'' w \<longrightarrow>
          map_of (heap st2 ?t) ''operator_wikidata'' = Some w"
    and o2: "\<forall>w l. given st1 kwargs ''operator_wikidata'' w \<and> given st1 kwargs ''operator'' l \<longrightarrow>
          map_of (heap st2 ?t) ''operator'' = Some l"
    and tr2: "\<forall>v. truthy st1 v \<longrightarrow> truthy st2 v"
    and ex2: "class_getattr st1 cls ''item_attributes'' \<noteq> None \<longrightarrow>
          classes st2 = classes st1 \<and> next_addr st2 = next_addr st1
          \<and> (\<forall>a k. k \<noteq> ''operator_wikidata'' \<and> k \<noteq> ''operator'' \<longrightarrow>
                map_of (heap st2 a) k = map_of (heap st1 a) k)"
    and d2: "\<forall>e. distinct (map fst (heap st1 e)) \<longrightarrow> distinct (map fst (heap st2 e))"
    and fr2: "\<forall>c. c \<noteq> cls \<longrightarrow> classes st2 c = classes st1 c"
    and an2: "cls_ancestors (classes st2 cls) = cls_ancestors (classes st1 cls)"
    and sk2: "\<not> (\<exists>w. given st1 kwargs ''operator_wikidata'' w) \<longrightarrow> st2 = st1"
    unfolding addr1 by (elim exE conjE) (rule that; assumption)
  have g1: "given st1 kwargs key v" if "given st kwargs key v" for key v
    using that tr1 by (rule given_mono)
  have c1: "\<forall>w. given st kwargs ''brand_wikidata'' w \<longrightarrow> map_of (heap st2 ?t) ''brand_wikidata'' = Some w"
  proof (intro allI impI)
    fix w assume w: "given st kwargs ''brand_wikidata'' w"
    with get1 have "class_getattr st1 cls ''item_attributes'' \<noteq> None" by auto
    with ex2 have "map_of (heap st2 ?t) ''brand_wikidata'' = map_of (heap st1 ?t) ''brand_wikidata''"
      by simp
    with b1 w show "map_of (heap st2 ?t) ''brand_wikidata'' = Some w" by simp
  qed
  have c2: "\<forall>w l. given st kwargs ''brand_wikidata'' w \<and> given st kwargs ''brand'' l \<longrightarrow>
          map_of (heap st2 ?t) ''brand'' = Some l"
  proof (intro allI impI)
    fix w l assume w: "given st kwargs ''brand_wikidata'' w \<and> given st kwargs ''brand'' l"
    with get1 have "class_getattr st1 cls ''item_attributes'' \<noteq> None" by auto
    with ex2 have "map_of (heap st2 ?t) ''brand'' = map_of (heap st1 ?t) ''brand''"
      by simp
    with b2 w show "map_of (heap st2 ?t) ''brand'' = Some l" by simp
  qed
  from o1 g1 have c3: "\<forall>w. given st kwargs ''operator_wikidata'' w \<longrightarrow>
          map_of (heap st2 ?t) ''operator_wikidata'' = Some w" by blast
  from o2 g1 have c4: "\<forall>w l. given st kwargs ''operator_wikidata'' w \<and> given st kwargs ''operator'' l \<longrightarrow>
          map_of (heap st2 ?t) ''operator'' = Some l" by blast
  have c5: "(\<exists>w. given st kwargs ''brand_wikidata'' w) \<or> (\<exists>w. given st kwargs ''operator_wikidata'' w) \<longrightarrow>
          class_getattr st2 cls ''item_attributes'' = Some (PDict ?t)"
  proof
    assume a: "(\<exists>w. given st kwargs ''brand_wikidata'' w) \<or> (\<exists>w. given st kwargs ''operator_wikidata'' w)"
    show "class_getattr st2 cls ''item_attributes'' = Some (PDict ?t)"
    proof (cases "\<exists>w. given st1 kwargs ''operator_wikidata'' w")
      case True
      with get2 show ?thesis by simp
    next
      case False
      with sk2 have eq: "st2 = st1" by simp
      from False g1 have "\<not> (\<exists>w. given st kwargs ''operator_wikidata'' w)" by blast
      with a get1 eq show ?thesis by simp
    qed
  qed
  from tr1 tr2 have c6: "\<forall>v. truthy st v \<longrightarrow> truthy st2 v" by simp
  have c7: "class_getattr st cls ''item_attributes'' \<noteq> None \<longrightarrow>
          classes st2 = classes st \<and> next_addr st2 = next_addr st"
  proof
    assume a: "class_getattr st cls ''item_attributes'' \<noteq> None"
    with ex1 have same: "classes st1 = classes st" "next_addr st1 = next_addr st" by simp_all
    from same(1) have "class_getattr st1 cls ''item_attributes'' = class_getattr st cls ''item_attributes''"
      by (intro class_getattr_cong) simp_all
    with a ex2 same show "classes st2 = classes st \<and> next_addr st2 = next_addr st" by simp
  qed
  from d1 d2 have c8: "\<forall>e. distinct (map fst (heap st e)) \<longrightarrow> distinct (map fst (heap st2 e))" by simp
  from fr1 fr2 have c9: "\<forall>c. c \<noteq> cls \<longrightarrow> classes st2 c = classes st c" by simp
  from an1 an2 have c10: "cls_ancestors (classes st2 cls) = cls_ancestors (classes st cls)" by simp
  have c11: "\<not> (\<exists>w. given st kwargs ''brand_wikidata'' w) \<and> \<not> (\<exists>w. given st kwargs ''operator_wikidata'' w)
          \<longrightarrow> st2 = st"
  proof
    assume a: "\<not> (\<exists>w. given st kwargs ''brand_wikidata'' w) \<and> \<not> (\<exists>w. given st kwargs ''operator_wikidata'' w)"
    with sk1 have "st1 = st" by simp
    with a sk2 show "st2 = st" by simp
  qed
  show ?thesis
    by (rule exI [of _ st1], rule exI [of _ st2], intro conjI)
       (fact r1 r2 c1 c2 c3 c4 c5 c6 c7 c8 c9 c10 c11)+
qed

text \<open>
  The whole hook: the store after the two wikidata blocks, then the renaming, then the
  loop over the pre-extracted attributes.
\<close>

lemma init_subclass_spec:
  assumes ok: "item_attributes_ok st cls" and ex: "extracted_attributes_ok st kwargs"
  shows "\<exists>st2 items.
       init_subclass st cls kwargs = Inr (store_items (renamed st2 cls kwargs) cls items)
     \<and> distinct (map fst items)
     \<and> (\<forall>e. map_of kwargs ''extracted_attributes'' = Some (PDict e) \<longrightarrow> items = heap st2 e)
     \<and> ((\<forall>e. map_of kwargs ''extracted_attributes'' \<noteq> Some (PDict e)) \<longrightarrow> items = [])
     \<and> (\<forall>w. given st kwargs ''brand_wikidata'' w \<longrightarrow>
          map_of (heap st2 (item_attributes_address st cls)) ''brand_wikidata'' = Some w)
     \<and> (\<forall>w l. given st kwargs ''brand_wikidata'' w \<and> given st kwargs ''brand'' l \<longrightarrow>
          map_of (heap st2 (item_attributes_address st cls)) ''brand'' = Some l)
     \<and> (\<forall>w. given st kwargs ''operator_wikidata'' w \<longrightarrow>
          map_of (heap st2 (item_attributes_address st cls)) ''operator_wikidata'' = Some w)
     \<and> (\<forall>w l. given st kwargs ''operator_wikidata'' w \<and> given st kwargs ''operator'' l \<longrightarrow>
          map_of (heap st2 (item_attributes_address st cls)) ''operator'' = Some l)
     \<and> ((\<exists>w. given st kwargs ''brand_wikidata'' w) \<or> (\<exists>w. given st kwargs ''operator_wikidata'' w) \<longrightarrow>
          class_getattr st2 cls ''item_attributes'' = Some (PDict (item_attributes_address st cls)))
     \<and> (\<forall>v. truthy st v \<longrightarrow> truthy st2 v)
     \<and> (class_getattr st cls ''item_attributes'' \<noteq> None \<longrightarrow>
          classes st2 = classes st \<and> next_addr st2 = next_addr st)
     \<and> (\<forall>c. c \<noteq> cls \<longrightarrow> classes st2 c = classes st c)
     \<and> cls_ancestors (classes st2 cls) = cls_ancestors (classes st cls)
     \<and> (\<not> (\<exists>w. given st kwargs ''brand_wikidata'' w) \<and> \<not> (\<exists>w. given st kwargs ''operator_wikidata'' w)
          \<longrightarrow> st2 = st)
     \<and> (distinct (map fst (cls_dict (classes st cls))) \<longrightarrow>
          distinct (map fst (cls_dict (classes st2 cls))))"
proof -
  let ?t = "item_attributes_address st cls"
  from wikidata_blocks_spec [OF ok, of kwargs] obtain st1 st2 where
    r1: "fold_wikidata ''brand_wikidata'' ''brand'' st cls kwargs = Inr st1"
    and r2: "fold_wikidata ''operator_wikidata'' ''operator'' st1 cls kwargs = Inr st2"
    and c1: "\<forall>w. given st kwargs ''brand_wikidata'' w \<longrightarrow>
          map_of (heap st2 ?t) ''brand_wikidata'' = Some w"
    and c2: "\<forall>w l. given st kwargs ''brand_wikidata'' w \<and> given st kwargs ''brand'' l \<longrightarrow>
          map_of (heap st2 ?t) ''brand'' = Some l"
    and c3: "\<forall>w. given st kwargs ''operator_wikidata'' w \<longrightarrow>
          map_of (heap st2 ?t) ''operator_wikidata'' = Some w"
    and c4: "\<forall>w l. given st kwargs ''operator_wikidata'' w \<and> given st kwargs ''operator'' l \<longrightarrow>
          map_of (heap st2 ?t) ''operator'' = Some l"
    and c5: "(\<exists>w. given st kwargs ''brand_wikidata'' w) \<or> (\<exists>w. given st kwargs ''operator_wikidata'' w) \<longrightarrow>
          class_getattr st2 cls ''item_attributes'' = Some (PDict ?t)"
    and c6: "\<forall>v. truthy st v \<longrightarrow> truthy st2 v"
    and c7: "class_getattr st cls ''item_attributes'' \<noteq> None \<longrightarrow>
          classes st2 = classes st \<and> next_addr st2 = next_addr st"
    and d: "\<forall>e. distinct (map fst (heap st e)) \<longrightarrow> distinct (map fst (heap st2 e))"
    and c9: "\<forall>c. c \<noteq> cls \<longrightarrow> classes st2 c = classes st c"
    and c10: "cls_ancestors (classes st2 cls) = cls_ancestors (classes st cls)"
    and c11: "\<not> (\<exists>w. given st kwargs ''brand_wikidata'' w) \<and> \<not> (\<exists>w. given st kwargs ''operator_wikidata'' w)
          \<longrightarrow> st2 = st"
    by (elim exE conjE) (rule that; assumption)
  let ?st3 = "renamed st2 cls kwargs"
  have ex3: "extracted_attributes_ok ?st3 kwargs"
  proof (cases "map_of kwargs ''extracted_attributes''")
    case None
    then show ?thesis by (simp add: extracted_attributes_ok_def)
  next
    case (Some x)
    show ?thesis
    proof (cases x)
      case (PDict e)
      with ex Some have de: "distinct (map fst (heap st e))"
        and pl: "\<forall>k \<in> fst ` set (heap st e). k \<notin> set special_attributes"
        by (simp_all add: extracted_attributes_ok_def list_all_iff)
      from de d have d2: "distinct (map fst (heap st2 e))" by simp
      from r1 have "fst ` set (heap st1 e)
                      \<subseteq> insert ''brand_wikidata'' (insert ''brand'' (fst ` set (heap st e)))"
        by (rule fold_wikidata_keys)
      moreover from r2 have "fst ` set (heap st2 e)
                      \<subseteq> insert ''operator_wikidata'' (insert ''operator'' (fst ` set (heap st1 e)))"
        by (rule fold_wikidata_keys)
      ultimately have sub: "fst ` set (heap st2 e)
          \<subseteq> {''brand_wikidata'', ''brand'', ''operator_wikidata'', ''operator''} \<union> fst ` set (heap st e)"
        by blast
      have "\<forall>k \<in> {''brand_wikidata'', ''brand'', ''operator_wikidata'', ''operator''}.
              k \<notin> set special_attributes"
        by (simp add: special_attributes_def readonly_attributes_def)
      with pl sub have "\<forall>k \<in> fst ` set (heap st2 e). k \<notin> set special_attributes" by blast
      with d2 Some PDict show ?thesis
        by (simp add: extracted_attributes_ok_def list_all_iff)
    qed (use ex Some in \<open>simp_all add: extracted_attributes_ok_def\<close>)
  qed
  from set_extracted_eq [OF ex3, of cls] obtain items where
    r3: "set_extracted ?st3 cls kwargs = Inr (store_items ?st3 cls items)"
    and i1: "\<forall>e. map_of kwargs ''extracted_attributes'' = Some (PDict e) \<longrightarrow> items = heap ?st3 e"
    and i2: "(\<forall>e. map_of kwargs ''extracted_attributes'' \<noteq> Some (PDict e)) \<longrightarrow> items = []"
    by (elim exE conjE) (rule that; assumption)
  from r1 r2 r3 have r: "init_subclass st cls kwargs = Inr (store_items ?st3 cls items)"
    by (simp add: init_subclass_def rename_spider_eq)
  from i1 have i1': "\<forall>e. map_of kwargs ''extracted_attributes'' = Some (PDict e) \<longrightarrow> items = heap st2 e"
    by simp
  have di: "distinct (map fst items)"
  proof (cases "\<exists>e. map_of kwargs ''extracted_attributes'' = Some (PDict e)")
    case True
    then obtain e where e: "map_of kwargs ''extracted_attributes'' = Some (PDict e)" by blast
    with ex have "distinct (map fst (heap st e))" by (simp add: extracted_attributes_ok_def)
    with d have "distinct (map fst (heap st2 e))" by simp
    with i1' e show ?thesis by simp
  next
    case False
    with i2 show ?thesis by simp
  qed
  have c12: "distinct (map fst (cls_dict (classes st cls))) \<longrightarrow>
          distinct (map fst (cls_dict (classes st2 cls)))"
  proof
    assume "distinct (map fst (cls_dict (classes st cls)))"
    with r1 have "distinct (map fst (cls_dict (classes st1 cls)))"
      by (rule fold_wikidata_namespace_distinct)
    with r2 show "distinct (map fst (cls_dict (classes st2 cls)))"
      by (rule fold_wikidata_namespace_distinct)
  qed
  show ?thesis
    by (rule exI [of _ st2], rule exI [of _ items], intro conjI)
       (fact r di i1' i2 c1 c2 c3 c4 c5 c6 c7 c9 c10 c11 c12)+
qed

lemma next_addr_store_items [simp]:
  "next_addr (store_items st cls items) = next_addr st"
  by (simp add: store_items_def)

lemma next_addr_renamed [simp]:
  "next_addr (renamed st cls kwargs) = next_addr st"
  by (simp add: renamed_eq namespace_store_def)

lemma classes_store_items_other:
  "c \<noteq> cls \<Longrightarrow> classes (store_items st cls items) c = classes st c"
  by (simp add: store_items_def)

lemma classes_renamed_other:
  "c \<noteq> cls \<Longrightarrow> classes (renamed st cls kwargs) c = classes st c"
  by (simp add: renamed_eq namespace_store_def)

lemma own_renamed_other:
  "name \<noteq> ''name'' \<Longrightarrow>
   map_of (cls_dict (classes (renamed st cls kwargs) cls)) name
     = map_of (cls_dict (classes st cls)) name"
  by (simp add: renamed_eq namespace_store_def map_of_dict_setitem)

lemma map_of_filter_key:
  "map_of (filter (\<lambda>kv. fst kv \<noteq> key) kwargs) k = (if k = key then None else map_of kwargs k)"
  by (induction kwargs) auto

lemma init_subclass_nothing_given:
  assumes "\<And>key v. key \<in> set enrichment_keywords \<Longrightarrow> map_of kwargs key = Some v \<Longrightarrow> \<not> truthy st v"
  shows "init_subclass st cls kwargs = Inr st"
proof -
  have k: "''brand_wikidata'' \<in> set enrichment_keywords" "''operator_wikidata'' \<in> set enrichment_keywords"
    "''spider_key'' \<in> set enrichment_keywords" "''extracted_attributes'' \<in> set enrichment_keywords"
    by (simp_all add: enrichment_keywords_def)
  from assms [OF k(1)] have 1: "fold_wikidata ''brand_wikidata'' ''brand'' st cls kwargs = Inr st"
    by (intro fold_wikidata_skip) (simp add: given_def)
  from assms [OF k(2)] have 2: "fold_wikidata ''operator_wikidata'' ''operator'' st cls kwargs = Inr st"
    by (intro fold_wikidata_skip) (simp add: given_def)
  from assms [OF k(3)] have 3: "rename_spider st cls kwargs = Inr st"
    by (auto simp: rename_spider_def split: option.split)
  from assms [OF k(4)] have 4: "set_extracted st cls kwargs = Inr st"
    by (auto simp: set_extracted_def split: option.split)
  from 1 2 3 4 show ?thesis by (simp add: init_subclass_def)
qed

subsection \<open>Keywords that the hook ignores\<close>

lemma stays_false_not_truthy:
  "stays_false st cls v \<Longrightarrow> \<not> truthy st v"
  by (simp add: stays_false_def)

lemma stays_false_heap:
  assumes "stays_false st cls v"
      and "\<And>a. a < next_addr st \<Longrightarrow> a \<noteq> item_attributes_address st cls \<Longrightarrow> heap s a = heap st a"
  shows "\<not> truthy s v"
  using assms by (cases v) (simp_all add: stays_false_def)

lemma stays_false_fold_wikidata:
  assumes "fold_wikidata wk lk st cls kwargs = Inr st1" and sf: "stays_false st cls v"
  shows "stays_false st1 cls v"
  using assms(1)
proof (cases rule: fold_wikidata_cases)
  case skip
  with sf show ?thesis by simp
next
  case (existing t H)
  from existing(1) have addr: "item_attributes_address st cls = t"
    by (simp add: item_attributes_address_def)
  from existing(1,2) have addr1: "item_attributes_address st1 cls = t"
    by (simp add: item_attributes_address_def)
  from sf existing(2) addr addr1 show ?thesis
    by (cases v) (simp_all add: stays_false_def)
next
  case (fresh H)
  let ?n = "next_addr st"
  from fresh(1) have addr: "item_attributes_address st cls = ?n"
    by (simp add: item_attributes_address_def)
  have "class_getattr st1 cls ''item_attributes'' = Some (PDict ?n)"
    unfolding fresh(2) by (rule class_getattr_own) (simp add: map_of_dict_setitem)
  then have addr1: "item_attributes_address st1 cls = ?n"
    by (simp add: item_attributes_address_def)
  from sf fresh(2) addr addr1 show ?thesis
    by (cases v) (simp_all add: stays_false_def)
qed

lemma stays_false_renamed:
  assumes "stays_false st cls v"
  shows "stays_false (renamed st cls kwargs) cls v"
proof -
  have "item_attributes_address (renamed st cls kwargs) cls = item_attributes_address st cls"
    by (simp add: item_attributes_address_def class_getattr_renamed_other
          split: option.split pyval.split)
  with assms show ?thesis
    by (cases v) (simp_all add: stays_false_def)
qed

text \<open>
  The label of a wikidata block is tested in the store that the assignment of the
  identifier has left: only the dictionary of \<^verbatim>\<open>item_attributes\<close> has changed.
\<close>

lemma label_test_store:
  assumes sf: "stays_false st cls v"
      and st1: "(if class_hasattr st cls ''item_attributes'' then Inr st
                 else (case new_dict st of
                         (a, st') \<Rightarrow> class_setattr st' cls ''item_attributes'' (PDict a))) = Inr st1"
      and st2: "attr_setitem st1 cls ''item_attributes'' wk w = Inr st2"
  shows "\<not> truthy st2 v"
proof (cases "class_getattr st cls ''item_attributes''")
  case None
  let ?n = "next_addr st"
  from None st1 have s1: "st1 = namespace_store (st\<lparr>heap := (heap st)(?n := []), next_addr := Suc ?n\<rparr>)
                                  cls ''item_attributes'' (PDict ?n)"
    by (simp add: class_hasattr_def new_dict_def)
  have get: "class_getattr st1 cls ''item_attributes'' = Some (PDict ?n)"
    unfolding s1 by (rule class_getattr_setattr_same)
  with st2 have s2: "st2 = st1\<lparr>heap := (heap st1)(?n := dict_setitem (heap st1 ?n) wk w)\<rparr>"
    by (simp add: attr_setitem_def)
  from sf show ?thesis
  proof (rule stays_false_heap)
    fix a assume "a < next_addr st"
    then show "heap st2 a = heap st a"
      unfolding s2 s1 by (simp add: namespace_store_def)
  qed
next
  case (Some x)
  with st1 have s1: "st1 = st" by (simp add: class_hasattr_def)
  from st2 Some s1 obtain t where t: "x = PDict t"
    by (cases x) (simp_all add: attr_setitem_def)
  with Some have addr: "item_attributes_address st cls = t"
    by (simp add: item_attributes_address_def)
  from st2 Some s1 t have s2: "st2 = st\<lparr>heap := (heap st)(t := dict_setitem (heap st t) wk w)\<rparr>"
    by (simp add: attr_setitem_def)
  from sf show ?thesis
  proof (rule stays_false_heap)
    fix a assume "a \<noteq> item_attributes_address st cls"
    then show "heap st2 a = heap st a"
      unfolding s2 addr by simp
  qed
qed

lemma fold_wikidata_steps:
  assumes "map_of kwargs wk = Some w" and "truthy st w"
      and "r1 = (if class_hasattr st cls ''item_attributes'' then Inr st
                 else (case new_dict st of
                         (a, st') \<Rightarrow> class_setattr st' cls ''item_attributes'' (PDict a)))"
  shows "fold_wikidata wk lk st cls kwargs =
     (case r1 of
        Inl e \<Rightarrow> Inl e
      | Inr st1 \<Rightarrow>
          (case attr_setitem st1 cls ''item_attributes'' wk w of
             Inl e \<Rightarrow> Inl e
           | Inr st2 \<Rightarrow>
               (case map_of kwargs lk of
                  None \<Rightarrow> Inr st2
                | Some l \<Rightarrow>
                    if truthy st2 l then attr_setitem st2 cls ''item_attributes'' lk l
                    else Inr st2)))"
  unfolding assms(3) using assms(1,2) by (simp add: fold_wikidata_def)

lemma fold_wikidata_drop:
  assumes m: "map_of kwargs key = Some v" and sf: "stays_false st cls v"
  shows "fold_wikidata wk lk st cls (filter (\<lambda>kv. fst kv \<noteq> key) kwargs)
           = fold_wikidata wk lk st cls kwargs"
proof (cases "key = wk")
  case True
  with m sf show ?thesis
    by (simp add: fold_wikidata_def map_of_filter_key stays_false_def)
next
  case wk: False
  let ?kw = "filter (\<lambda>kv. fst kv \<noteq> key) kwargs"
  from wk have mw: "map_of ?kw wk = map_of kwargs wk" by (simp add: map_of_filter_key)
  show ?thesis
  proof (cases "map_of kwargs wk")
    case None
    with mw show ?thesis by (simp add: fold_wikidata_def)
  next
    case (Some w)
    show ?thesis
    proof (cases "truthy st w")
      case False
      with mw Some show ?thesis by (simp add: fold_wikidata_def)
    next
      case True
      define r1 where "r1 = (if class_hasattr st cls ''item_attributes'' then Inr st
                 else (case new_dict st of
                         (a, st') \<Rightarrow> class_setattr st' cls ''item_attributes'' (PDict a)))"
      from mw Some have mw': "map_of ?kw wk = Some w" by simp
      note L = fold_wikidata_steps [OF mw' True r1_def, of lk]
      note R = fold_wikidata_steps [OF Some True r1_def, of lk]
      show ?thesis
      proof (cases r1)
        case (Inl e)
        show ?thesis unfolding L R by (simp add: Inl)
      next
        case r1: (Inr st1)
        show ?thesis
        proof (cases "attr_setitem st1 cls ''item_attributes'' wk w")
          case (Inl e)
          show ?thesis unfolding L R by (simp add: r1 Inl)
        next
          case r2: (Inr st2)
          have tail: "(case map_of ?kw lk of
                         None \<Rightarrow> Inr st2
                       | Some l \<Rightarrow>
                           if truthy st2 l then attr_setitem st2 cls ''item_attributes'' lk l
                           else Inr st2)
                      = (case map_of kwargs lk of
                         None \<Rightarrow> Inr st2
                       | Some l \<Rightarrow>
                           if truthy st2 l then attr_setitem st2 cls ''item_attributes'' lk l
                           else Inr st2)"
          proof (cases "key = lk")
            case False
            then show ?thesis by (simp add: map_of_filter_key)
          next
            case True
            from r1 have "(if class_hasattr st cls ''item_attributes'' then Inr st
                 else (case new_dict st of
                         (a, st') \<Rightarrow> class_setattr st' cls ''item_attributes'' (PDict a))) = Inr st1"
              by (simp only: r1_def)
            with sf have "\<not> truthy st2 v" using r2 by (rule label_test_store)
            with True m show ?thesis by (simp add: map_of_filter_key)
          qed
          show ?thesis unfolding L R by (simp add: r1 r2 tail)
        qed
      qed
    qed
  qed
qed

lemma init_subclass_drop:
  assumes m: "map_of kwargs key = Some v" and sf: "stays_false st cls v"
  shows "init_subclass st cls (filter (\<lambda>kv. fst kv \<noteq> key) kwargs) = init_subclass st cls kwargs"
proof -
  let ?kw = "filter (\<lambda>kv. fst kv \<noteq> key) kwargs"
  have 1: "fold_wikidata ''brand_wikidata'' ''brand'' st cls ?kw
             = fold_wikidata ''brand_wikidata'' ''brand'' st cls kwargs"
    using m sf by (rule fold_wikidata_drop)
  show ?thesis
  proof (cases "fold_wikidata ''brand_wikidata'' ''brand'' st cls kwargs")
    case (Inl e)
    with 1 show ?thesis by (simp add: init_subclass_def)
  next
    case r1: (Inr st1)
    from r1 sf have sf1: "stays_false st1 cls v" by (rule stays_false_fold_wikidata)
    have 2: "fold_wikidata ''operator_wikidata'' ''operator'' st1 cls ?kw
               = fold_wikidata ''operator_wikidata'' ''operator'' st1 cls kwargs"
      using m sf1 by (rule fold_wikidata_drop)
    show ?thesis
    proof (cases "fold_wikidata ''operator_wikidata'' ''operator'' st1 cls kwargs")
      case (Inl e)
      with 1 2 r1 show ?thesis by (simp add: init_subclass_def)
    next
      case r2: (Inr st2)
      from r2 sf1 have sf2: "stays_false st2 cls v" by (rule stays_false_fold_wikidata)
      then have f2: "\<not> truthy st2 v" by (rule stays_false_not_truthy)
      with m have 3: "renamed st2 cls ?kw = renamed st2 cls kwargs"
        by (simp add: renamed_def map_of_filter_key)
      from sf2 have "stays_false (renamed st2 cls kwargs) cls v" by (rule stays_false_renamed)
      then have "\<not> truthy (renamed st2 cls kwargs) v" by (rule stays_false_not_truthy)
      with m have 4: "set_extracted (renamed st2 cls kwargs) cls ?kw
                        = set_extracted (renamed st2 cls kwargs) cls kwargs"
        by (simp add: set_extracted_def map_of_filter_key)
      from 1 2 3 4 r1 r2 show ?thesis
        by (simp add: init_subclass_def rename_spider_eq)
    qed
  qed
qed

subsection \<open>The declared class rendered\<close>

lemma render_attributes_prefix:
  "render_attributes st code items = Inr c \<Longrightarrow> \<exists>rest. c = code @ rest"
proof (induction items arbitrary: code)
  case Nil
  then show ?case by simp
next
  case (Cons kv items)
  show ?case
  proof (cases "snd kv = PType")
    case True
    with Cons.prems show ?thesis by (simp add: render_attribute_eq)
  next
    case False
    with Cons.prems have "render_attributes st (code @ attribute_lines st kv) items = Inr c"
      by (simp add: render_attribute_eq)
    then obtain rest where "c = (code @ attribute_lines st kv) @ rest"
      using Cons.IH by blast
    then show ?thesis by simp
  qed
qed

lemma renamed_namespace_distinct:
  "distinct (map fst (cls_dict (classes st cls))) \<Longrightarrow>
   distinct (map fst (cls_dict (classes (renamed st cls kwargs) cls)))"
  by (simp add: renamed_eq namespace_store_def distinct_dict_setitem)

lemma store_items_namespace_distinct:
  "distinct (map fst (cls_dict (classes st cls))) \<Longrightarrow>
   distinct (map fst (cls_dict (classes (store_items st cls items) cls)))"
  by (simp add: store_items_def distinct_dict_update)

text \<open>
  A class whose namespace has a string under \<^verbatim>\<open>name\<close> is rendered with the name line
  first.
\<close>

lemma name_line_first:
  assumes d: "distinct (map fst (cls_dict (classes st cls)))"
      and n: "map_of (cls_dict (classes st cls)) ''name'' = Some (PStr s)"
      and r: "generate_spider_attributes_code st cls default_sort_order = Inr code"
  shows "\<exists>rest. code = [NL, TAB] @ ''name = '' @ [DQ] @ s @ [DQ] @ rest"
proof -
  let ?attrs = "spider_attributes (cls_dict (classes st cls))"
  from d have da: "distinct (map fst ?attrs)" by (rule spider_attributes_distinct)
  have dso: "distinct default_sort_order" by (simp add: default_sort_order_def)
  have "\<not> startswith ''name'' ''_''" by (simp add: startswith_def)
  with d n have "(''name'', PStr s) \<in> set ?attrs" by (simp add: in_spider_attributes)
  with da have m: "map_of ?attrs ''name'' = Some (PStr s)" by simp
  from da dso have "spider_attributes_sorted default_sort_order ?attrs =
           select_items ?attrs default_sort_order
           @ select_items ?attrs (filter (\<lambda>k. k \<notin> set default_sort_order) (sort (map fst ?attrs)))"
    by (rule spider_attributes_sorted_eq)
  with m obtain items where
    "spider_attributes_sorted default_sort_order ?attrs = (''name'', PStr s) # items"
    by (simp add: default_sort_order_def)
  with r have "render_attributes st ([NL, TAB] @ ''name = '' @ [DQ] @ s @ [DQ]) items = Inr code"
    by (simp add: generate_spider_attributes_code_def)
  then obtain rest where "code = ([NL, TAB] @ ''name = '' @ [DQ] @ s @ [DQ]) @ rest"
    using render_attributes_prefix by blast
  then show ?thesis by simp
qed
subsection \<open>Detection chains\<close>

lemma detection_chain_verdict:
  "detection_chain methods dispatch (Verdict b) = Some b"
  by (subst detection_chain.simps) simp

lemma detection_chain_follows:
  "follows methods dispatch d d' \<Longrightarrow>
   detection_chain methods dispatch d = detection_chain methods dispatch d'"
proof (cases d)
  case (Verdict b)
  assume "follows methods dispatch d d'"
  with Verdict show ?thesis by simp
next
  case (DetectionRequest rq)
  assume f: "follows methods dispatch d d'"
  with DetectionRequest obtain c where
    c: "map_of (req_meta rq) ''next_detection_method'' = Some (PStr c)"
    and d': "d' = methods c (dispatch rq)"
    by (auto split: option.splits pyval.splits)
  show ?thesis unfolding DetectionRequest d'
    by (subst detection_chain.simps) (simp add: c)
qed

lemma detection_chain_along:
  "successively (follows methods dispatch) ds \<Longrightarrow> ds \<noteq> [] \<Longrightarrow>
   detection_chain methods dispatch (hd ds) = detection_chain methods dispatch (last ds)"
proof (induction ds)
  case Nil
  then show ?case by simp
next
  case (Cons d ds)
  show ?case
  proof (cases ds)
    case Nil
    then show ?thesis by simp
  next
    case (Cons d' ds')
    with Cons.prems have f: "follows methods dispatch d d'"
      and s: "successively (follows methods dispatch) ds" by simp_all
    from f have "detection_chain methods dispatch d = detection_chain methods dispatch d'"
      by (rule detection_chain_follows)
    also from Cons.IH [OF s] Cons have "\<dots> = detection_chain methods dispatch (last ds)" by simp
    finally show ?thesis using Cons by simp
  qed
qed

lemma detection_chain_only_verdict:
  assumes "detection_chain methods dispatch d = Some b"
  shows "\<exists>ds. chain_results methods dispatch ds \<and> hd ds = d \<and> last ds = Verdict b"
proof (rule detection_chain.raw_induct
    [where P = "\<lambda>m dp v y. \<exists>ds. chain_results m dp ds \<and> hd ds = v \<and> last ds = Verdict y"
       and methods = methods and dispatch = dispatch and d = d and y = b])
  show "detection_chain methods dispatch d = Some b" by (rule assms)
next
  fix chain m dp v y
  assume IH: "\<And>m' dp' v' y'. chain m' dp' v' = Some y' \<Longrightarrow>
                \<exists>ds. chain_results m' dp' ds \<and> hd ds = v' \<and> last ds = Verdict y'"
    and eq: "(case v of
                Verdict b \<Rightarrow> Some b
              | DetectionRequest rq \<Rightarrow>
                  (case map_of (req_meta rq) ''next_detection_method'' of
                     Some (PStr continuation) \<Rightarrow> chain m dp (m continuation (dp rq))
                   | _ \<Rightarrow> None)) = Some y"
  show "\<exists>ds. chain_results m dp ds \<and> hd ds = v \<and> last ds = Verdict y"
  proof (cases v)
    case (Verdict b')
    with eq have "b' = y" by simp
    with Verdict have "chain_results m dp [v] \<and> hd [v] = v \<and> last [v] = Verdict y"
      by (simp add: chain_results_def)
    then show ?thesis by blast
  next
    case (DetectionRequest rq)
    with eq obtain c where
      c: "map_of (req_meta rq) ''next_detection_method'' = Some (PStr c)"
      and r: "chain m dp (m c (dp rq)) = Some y"
      by (auto split: option.splits pyval.splits)
    from IH [OF r] obtain ds where
      ds: "chain_results m dp ds" "hd ds = m c (dp rq)" "last ds = Verdict y"
      by blast
    from ds(1) have ne: "ds \<noteq> []" and s: "successively (follows m dp) ds"
      by (simp_all add: chain_results_def)
    from ne ds(2) c DetectionRequest have "follows m dp v (hd ds)" by simp
    with ne s have "successively (follows m dp) (v # ds)"
      by (simp add: successively_Cons)
    with ne ds(3) have "chain_results m dp (v # ds) \<and> hd (v # ds) = v
                         \<and> last (v # ds) = Verdict y"
      by (simp add: chain_results_def)
    then show ?thesis by blast
  qed
qed

lemma chain_results_pending:
  "chain_results methods dispatch ds \<Longrightarrow> i < length ds - 1 \<Longrightarrow> \<exists>rq. ds ! i = DetectionRequest rq"
proof -
  assume c: "chain_results methods dispatch ds" and i: "i < length ds - 1"
  then have s: "successively (follows methods dispatch) ds" by (simp add: chain_results_def)
  from i have "Suc i < length ds" by simp
  with s have "follows methods dispatch (ds ! i) (ds ! Suc i)"
    by (simp add: successively_conv_nth)
  then show ?thesis by (cases "ds ! i") simp_all
qed

section \<open>The example rendered\<close>

text \<open>
  The scenario of section 8 of the specification, evaluated: the order of the attributes
  that enter the loop, and the text of the attributes. The private entry and the entry
  that is \<^verbatim>\<open>None\<close> are absent; the integer and the method enter the loop and contribute
  no text.
\<close>

lemma example_keys:
  "map fst (spider_attributes_sorted default_sort_order
              (spider_attributes (cls_dict (classes example_state 1))))
     = [''name'', ''item_attributes'', ''allowed_domains'', ''start_urls'',
        ''beta'', ''download_delay'', ''parse'', ''zeta'']"
  by code_simp

lemma example_attributes_code:
  "generate_spider_attributes_code example_state 1 default_sort_order =
     Inr ([NL, TAB] @ ''name = '' @ [DQ] @ ''acme_example'' @ [DQ]
          @ [NL, TAB] @ ''item_attributes = {''
          @ [NL, TAB, TAB] @ ''brand = '' @ [DQ] @ ''Acme'' @ [DQ] @ '',''
          @ [NL, TAB, TAB] @ ''brand_wikidata = '' @ [DQ] @ ''Q1'' @ [DQ] @ '',''
          @ [NL, TAB] @ ''}''
          @ [NL, TAB] @ ''allowed_domains = [''
          @ [NL, TAB, TAB] @ [DQ] @ ''acme.example'' @ [DQ] @ '',''
          @ [NL, TAB] @ '']''
          @ [NL, TAB] @ ''start_urls = [''
          @ [NL, TAB, TAB] @ [DQ] @ ''https://acme.example/stores'' @ [DQ] @ '',''
          @ [NL, TAB] @ '']''
          @ [NL, TAB] @ ''beta = [''
          @ [NL, TAB, TAB] @ [DQ] @ ''b'' @ [DQ] @ '',''
          @ [NL, TAB] @ '']''
          @ [NL, TAB] @ ''zeta = '' @ [DQ] @ ''z'' @ [DQ])"
  by code_simp

text \<open>
  The scenario of the renamed spider: the class declared with \<^verbatim>\<open>spider_key="new_name"\<close>,
  a brand and pre-extracted attributes, and then rendered. The name field shows the new
  name; the body's \<^verbatim>\<open>old_name\<close> is gone.
\<close>

lemma declared_rendering:
  "(case init_subclass declaration_state 3 enrichment_kwargs of
      Inl e \<Rightarrow> Inl e
    | Inr st' \<Rightarrow> generate_spider_code st' 3)
   = Inr (''from locations.automatic_spider_generator import AutomaticSpiderGenerator'' @ [NL]
          @ [NL, NL] @ ''class NewSpider(AutomaticSpiderGenerator):''
          @ [NL, TAB] @ ''name = '' @ [DQ] @ ''new_name'' @ [DQ]
          @ [NL, TAB] @ ''item_attributes = {''
          @ [NL, TAB, TAB] @ ''brand_wikidata = '' @ [DQ] @ ''Q1'' @ [DQ] @ '',''
          @ [NL, TAB, TAB] @ ''brand = '' @ [DQ] @ ''Acme'' @ [DQ] @ '',''
          @ [NL, TAB] @ ''}''
          @ [NL, TAB] @ ''allowed_domains = [''
          @ [NL, TAB, TAB] @ [DQ] @ ''acme.example'' @ [DQ] @ '',''
          @ [NL, TAB] @ '']''
          @ [NL, TAB] @ ''start_urls = [''
          @ [NL, TAB, TAB] @ [DQ] @ ''https://acme.example/stores'' @ [DQ] @ '',''
          @ [NL, TAB] @ '']'')"
  by code_simp

section \<open>Claims on the code synthesizer\<close>

text \<open>
  Claim C1. For every spider definition (a class whose namespace is a dictionary, so
  its keys are distinct), the attributes that \<^verbatim>\<open>generate_spider_attributes_code\<close> renders
  are processed in this order: first the reserved keys \<^verbatim>\<open>name\<close>, \<^verbatim>\<open>item_attributes\<close>,
  \<^verbatim>\<open>allowed_domains\<close>, \<^verbatim>\<open>start_urls\<close>, in this fixed order, as far as the namespace of
  the class has them with a value that is not \<^verbatim>\<open>None\<close>; then all other keys of the
  namespace that do not begin with an underscore and whose value is not \<^verbatim>\<open>None\<close>, in
  strictly ascending lexicographic order. The attributes processed are exactly these
  entries of the namespace, each with its value, and whenever the rendering returns,
  its text is the concatenation of the blocks of these attributes in that order, which
  \<^verbatim>\<open>generate_spider_code\<close> puts after the class header.
\<close>

theorem attributes_order:
  assumes "distinct (map fst (cls_dict (classes st spider)))"
  shows "\<exists>reserved others.
           generate_spider_attributes_code st spider default_sort_order
             = render_attributes st [] (reserved @ others)
         \<and> map fst reserved =
             filter (\<lambda>k. map_of (cls_dict (classes st spider)) k \<notin> {None, Some PNone})
               [''name'', ''item_attributes'', ''allowed_domains'', ''start_urls'']
         \<and> map fst others =
             sort (filter (\<lambda>k. \<not> startswith k ''_''
                              \<and> map_of (cls_dict (classes st spider)) k \<noteq> Some PNone
                              \<and> k \<notin> {''name'', ''item_attributes'', ''allowed_domains'', ''start_urls''})
                     (map fst (cls_dict (classes st spider))))
         \<and> sorted_wrt (<) (map fst others)
         \<and> (\<forall>k v. (k, v) \<in> set (reserved @ others) \<longleftrightarrow>
                map_of (cls_dict (classes st spider)) k = Some v \<and> \<not> startswith k ''_'' \<and> v \<noteq> PNone)
         \<and> (PType \<notin> snd ` set (reserved @ others) \<longrightarrow>
              generate_spider_attributes_code st spider default_sort_order
                = Inr (concat (map (attribute_lines st) (reserved @ others)))
            \<and> generate_spider_code st spider
                = Inr (class_header st spider @ concat (map (attribute_lines st) (reserved @ others))))"
proof -
  let ?ns = "cls_dict (classes st spider)"
  let ?attrs = "spider_attributes ?ns"
  let ?so = "[''name'', ''item_attributes'', ''allowed_domains'', ''start_urls'']"
  let ?A = "select_items ?attrs ?so"
  let ?B = "select_items ?attrs (filter (\<lambda>k. k \<notin> set ?so) (sort (map fst ?attrs)))"
  from assms have d: "distinct (map fst ?attrs)" by (rule spider_attributes_distinct)
  have dso: "distinct ?so" by simp
  have member: "(k, v) \<in> set ?attrs \<longleftrightarrow> map_of ?ns k = Some v \<and> \<not> startswith k ''_'' \<and> v \<noteq> PNone"
    for k v using assms by (rule in_spider_attributes)
  have sorted_eq: "spider_attributes_sorted default_sort_order ?attrs = ?A @ ?B"
    unfolding default_sort_order_def using d dso by (rule spider_attributes_sorted_eq)
  then have gen: "generate_spider_attributes_code st spider default_sort_order
                    = render_attributes st [] (?A @ ?B)"
    by (simp add: generate_spider_attributes_code_def)
  have "map fst ?A = filter (\<lambda>k. k \<in> fst ` set ?attrs) ?so"
    by (rule map_fst_select_items)
  also have "\<dots> = filter (\<lambda>k. map_of ?ns k \<notin> {None, Some PNone}) ?so"
  proof (rule filter_cong [OF refl])
    fix k assume "k \<in> set ?so"
    then have pub: "\<not> startswith k ''_''" by (auto simp: startswith_def)
    have "k \<in> fst ` set ?attrs \<longleftrightarrow> (\<exists>v. (k, v) \<in> set ?attrs)" by force
    also have "\<dots> \<longleftrightarrow> (\<exists>v. map_of ?ns k = Some v \<and> v \<noteq> PNone)"
      using pub by (simp add: member)
    also have "\<dots> \<longleftrightarrow> map_of ?ns k \<notin> {None, Some PNone}" by auto
    finally show "k \<in> fst ` set ?attrs \<longleftrightarrow> map_of ?ns k \<notin> {None, Some PNone}" .
  qed
  finally have keysA: "map fst ?A = filter (\<lambda>k. map_of ?ns k \<notin> {None, Some PNone}) ?so" .
  have kB: "map fst ?B = sort (filter (\<lambda>k. k \<notin> set ?so) (map fst ?attrs))"
    using d dso by (rule spider_attributes_sorted_keys)
  have ka: "map fst ?attrs
      = filter (\<lambda>k. \<not> startswith k ''_'' \<and> map_of ?ns k \<noteq> Some PNone) (map fst ?ns)"
    using assms by (rule spider_attributes_keys)
  have "filter (\<lambda>k. k \<notin> set ?so) (map fst ?attrs)
      = filter (\<lambda>k. \<not> startswith k ''_'' \<and> map_of ?ns k \<noteq> Some PNone
                       \<and> k \<notin> {''name'', ''item_attributes'', ''allowed_domains'', ''start_urls''})
              (map fst ?ns)"
    unfolding ka filter_filter by (rule filter_cong) auto
  with kB have keysB: "map fst ?B =
      sort (filter (\<lambda>k. \<not> startswith k ''_'' \<and> map_of ?ns k \<noteq> Some PNone
                       \<and> k \<notin> {''name'', ''item_attributes'', ''allowed_domains'', ''start_urls''})
              (map fst ?ns))"
    by (simp only:)
  from d have "distinct (filter (\<lambda>k. k \<notin> set ?so) (map fst ?attrs))" by simp
  then have "sorted_wrt (<) (sort (filter (\<lambda>k. k \<notin> set ?so) (map fst ?attrs)))"
    by (simp add: strict_sorted_iff)
  then have strict: "sorted_wrt (<) (map fst ?B)"
    using spider_attributes_sorted_keys [OF d dso] by simp
  have "set (?A @ ?B) = set ?attrs"
    using d by (rule set_sorted_attributes)
  then have setAB: "\<forall>k v. (k, v) \<in> set (?A @ ?B) \<longleftrightarrow>
                map_of ?ns k = Some v \<and> \<not> startswith k ''_'' \<and> v \<noteq> PNone"
    by (simp only: member) simp
  have ok: "PType \<notin> snd ` set (?A @ ?B) \<longrightarrow>
              generate_spider_attributes_code st spider default_sort_order
                = Inr (concat (map (attribute_lines st) (?A @ ?B)))
            \<and> generate_spider_code st spider
                = Inr (class_header st spider @ concat (map (attribute_lines st) (?A @ ?B)))"
  proof
    assume "PType \<notin> snd ` set (?A @ ?B)"
    then have "render_attributes st [] (?A @ ?B) = Inr ([] @ concat (map (attribute_lines st) (?A @ ?B)))"
      by (rule render_attributes_ok)
    with gen show "generate_spider_attributes_code st spider default_sort_order
                = Inr (concat (map (attribute_lines st) (?A @ ?B)))
            \<and> generate_spider_code st spider
                = Inr (class_header st spider @ concat (map (attribute_lines st) (?A @ ?B)))"
      by (simp add: generate_spider_code_eq)
  qed
  show ?thesis
    by (rule exI [of _ ?A], rule exI [of _ ?B], intro conjI) (fact gen keysA keysB strict setAB ok)+
qed

text \<open>
  C1 at the example, whose namespace lists its entries in another order and has a
  private entry, an entry that is \<^verbatim>\<open>None\<close>, an integer and a method: the keys in the
  order in which they are processed, and the text.
\<close>

theorem attributes_order_witness:
  "distinct (map fst (cls_dict (classes example_state 1)))
   \<and> map fst (cls_dict (classes example_state 1))
       = [''__module__'', ''start_urls'', ''zeta'', ''item_attributes'', ''download_delay'', ''beta'',
          ''name'', ''parse'', ''user_agent'', ''allowed_domains'']
   \<and> (\<exists>reserved others.
           generate_spider_attributes_code example_state 1 default_sort_order
             = render_attributes example_state [] (reserved @ others)
         \<and> map fst reserved = [''name'', ''item_attributes'', ''allowed_domains'', ''start_urls'']
         \<and> map fst others = [''beta'', ''download_delay'', ''parse'', ''zeta'']
         \<and> generate_spider_attributes_code example_state 1 default_sort_order
             = Inr (concat (map (attribute_lines example_state) (reserved @ others)))
         \<and> generate_spider_code example_state 1
             = Inr (class_header example_state 1
                    @ concat (map (attribute_lines example_state) (reserved @ others))))"
proof -
  let ?ns = "cls_dict (classes example_state 1)"
  have h: "distinct (map fst ?ns)"
    by (simp add: example_state_def acme_example_def)
  have ks: "map fst ?ns
       = [''__module__'', ''start_urls'', ''zeta'', ''item_attributes'', ''download_delay'', ''beta'',
          ''name'', ''parse'', ''user_agent'', ''allowed_domains'']"
    by (simp add: example_state_def acme_example_def)
  have e1: "filter (\<lambda>k. map_of ?ns k \<notin> {None, Some PNone})
               [''name'', ''item_attributes'', ''allowed_domains'', ''start_urls'']
            = [''name'', ''item_attributes'', ''allowed_domains'', ''start_urls'']"
    by code_simp
  have e2: "sort (filter (\<lambda>k. \<not> startswith k ''_'' \<and> map_of ?ns k \<noteq> Some PNone
                              \<and> k \<notin> {''name'', ''item_attributes'', ''allowed_domains'', ''start_urls''})
                     (map fst ?ns))
            = [''beta'', ''download_delay'', ''parse'', ''zeta'']"
    by code_simp
  have no_type: "map_of ?ns k \<noteq> Some PType" for k
    by (simp add: example_state_def acme_example_def)
  from attributes_order [OF h] obtain reserved others where
    gen: "generate_spider_attributes_code example_state 1 default_sort_order
             = render_attributes example_state [] (reserved @ others)"
    and r: "map fst reserved =
             filter (\<lambda>k. map_of ?ns k \<notin> {None, Some PNone})
               [''name'', ''item_attributes'', ''allowed_domains'', ''start_urls'']"
    and s: "map fst others =
             sort (filter (\<lambda>k. \<not> startswith k ''_'' \<and> map_of ?ns k \<noteq> Some PNone
                              \<and> k \<notin> {''name'', ''item_attributes'', ''allowed_domains'', ''start_urls''})
                     (map fst ?ns))"
    and m: "\<forall>k v. (k, v) \<in> set (reserved @ others) \<longleftrightarrow>
                map_of ?ns k = Some v \<and> \<not> startswith k ''_'' \<and> v \<noteq> PNone"
    and ok: "PType \<notin> snd ` set (reserved @ others) \<longrightarrow>
              generate_spider_attributes_code example_state 1 default_sort_order
                = Inr (concat (map (attribute_lines example_state) (reserved @ others)))
            \<and> generate_spider_code example_state 1
                = Inr (class_header example_state 1
                       @ concat (map (attribute_lines example_state) (reserved @ others)))"
    by blast
  have "PType \<notin> snd ` set (reserved @ others)"
  proof
    assume "PType \<in> snd ` set (reserved @ others)"
    then obtain k where "(k, PType) \<in> set (reserved @ others)" by force
    with m have "map_of ?ns k = Some PType" by blast
    with no_type show False by blast
  qed
  with ok have t1: "generate_spider_attributes_code example_state 1 default_sort_order
                = Inr (concat (map (attribute_lines example_state) (reserved @ others)))"
    and t2: "generate_spider_code example_state 1
                = Inr (class_header example_state 1
                       @ concat (map (attribute_lines example_state) (reserved @ others)))"
    by simp_all
  from r e1 have r': "map fst reserved = [''name'', ''item_attributes'', ''allowed_domains'', ''start_urls'']"
    by (simp only:)
  from s e2 have s': "map fst others = [''beta'', ''download_delay'', ''parse'', ''zeta'']"
    by (simp only:)
  have "\<exists>reserved others.
           generate_spider_attributes_code example_state 1 default_sort_order
             = render_attributes example_state [] (reserved @ others)
         \<and> map fst reserved = [''name'', ''item_attributes'', ''allowed_domains'', ''start_urls'']
         \<and> map fst others = [''beta'', ''download_delay'', ''parse'', ''zeta'']
         \<and> generate_spider_attributes_code example_state 1 default_sort_order
             = Inr (concat (map (attribute_lines example_state) (reserved @ others)))
         \<and> generate_spider_code example_state 1
             = Inr (class_header example_state 1
                    @ concat (map (attribute_lines example_state) (reserved @ others)))"
    by (rule exI [of _ reserved], rule exI [of _ others], intro conjI) (fact gen r' s' t1 t2)+
  with h ks show ?thesis by (intro conjI)
qed
text \<open>
  Claim C2. Rendering is deterministic, with no dependence on unordered iteration: this
  does not hold of every spider definition. The test of line 64, \<^verbatim>\<open>hasattr(v, "__len__")\<close>
  with the comment \<^verbatim>\<open># Array\<close>, also admits a set, and the loop of line 66 iterates it in
  the order of the interpreter process, which follows the salted hashes of the elements.
  For the class \<^verbatim>\<open>tagged_example\<close> with \<^verbatim>\<open>tags = {'alpha', 'beta', 'gamma', 'delta'}\<close>,
  \<^verbatim>\<open>generate_spider_code\<close> returns one text in a process with hash seed 1 and another
  text in a process with hash seed 2, though the class objects and the dictionaries of
  the two stores are the same. (Where no attribute is a set, the text is determined by
  the definition: lemma \<open>generate_spider_code_cong\<close>.)
\<close>

theorem rendering_depends_on_set_order:
  "generate_spider_code (tagged_state seed_1_order) 1 =
     Inr (''from builtins import object'' @ [NL] @ [NL, NL] @ ''class tagged_example(object):''
          @ [NL, TAB] @ ''tags = [''
          @ [NL, TAB, TAB] @ [DQ] @ ''beta'' @ [DQ] @ '',''
          @ [NL, TAB, TAB] @ [DQ] @ ''delta'' @ [DQ] @ '',''
          @ [NL, TAB, TAB] @ [DQ] @ ''gamma'' @ [DQ] @ '',''
          @ [NL, TAB, TAB] @ [DQ] @ ''alpha'' @ [DQ] @ '',''
          @ [NL, TAB] @ '']'')
   \<and> generate_spider_code (tagged_state seed_2_order) 1 =
     Inr (''from builtins import object'' @ [NL] @ [NL, NL] @ ''class tagged_example(object):''
          @ [NL, TAB] @ ''tags = [''
          @ [NL, TAB, TAB] @ [DQ] @ ''delta'' @ [DQ] @ '',''
          @ [NL, TAB, TAB] @ [DQ] @ ''gamma'' @ [DQ] @ '',''
          @ [NL, TAB, TAB] @ [DQ] @ ''alpha'' @ [DQ] @ '',''
          @ [NL, TAB, TAB] @ [DQ] @ ''beta'' @ [DQ] @ '',''
          @ [NL, TAB] @ '']'')
   \<and> classes (tagged_state seed_1_order) = classes (tagged_state seed_2_order)
   \<and> heap (tagged_state seed_1_order) = heap (tagged_state seed_2_order)
   \<and> generate_spider_code (tagged_state seed_1_order) 1
       \<noteq> generate_spider_code (tagged_state seed_2_order) 1"
proof -
  have 1: "generate_spider_code (tagged_state seed_1_order) 1 =
     Inr (''from builtins import object'' @ [NL] @ [NL, NL] @ ''class tagged_example(object):''
          @ [NL, TAB] @ ''tags = [''
          @ [NL, TAB, TAB] @ [DQ] @ ''beta'' @ [DQ] @ '',''
          @ [NL, TAB, TAB] @ [DQ] @ ''delta'' @ [DQ] @ '',''
          @ [NL, TAB, TAB] @ [DQ] @ ''gamma'' @ [DQ] @ '',''
          @ [NL, TAB, TAB] @ [DQ] @ ''alpha'' @ [DQ] @ '',''
          @ [NL, TAB] @ '']'')"
    by code_simp
  have 2: "generate_spider_code (tagged_state seed_2_order) 1 =
     Inr (''from builtins import object'' @ [NL] @ [NL, NL] @ ''class tagged_example(object):''
          @ [NL, TAB] @ ''tags = [''
          @ [NL, TAB, TAB] @ [DQ] @ ''delta'' @ [DQ] @ '',''
          @ [NL, TAB, TAB] @ [DQ] @ ''gamma'' @ [DQ] @ '',''
          @ [NL, TAB, TAB] @ [DQ] @ ''alpha'' @ [DQ] @ '',''
          @ [NL, TAB, TAB] @ [DQ] @ ''beta'' @ [DQ] @ '',''
          @ [NL, TAB] @ '']'')"
    by code_simp
  have 3: "classes (tagged_state seed_1_order) = classes (tagged_state seed_2_order)"
    and 4: "heap (tagged_state seed_1_order) = heap (tagged_state seed_2_order)"
    by (simp_all add: tagged_state_def)
  have 5: "generate_spider_code (tagged_state seed_1_order) 1
       \<noteq> generate_spider_code (tagged_state seed_2_order) 1"
    unfolding 1 2 by simp
  from 1 2 3 4 5 show ?thesis by (intro conjI)
qed
text \<open>
  Claim C4, as amended. For every spider definition, a key whose value is \<^verbatim>\<open>None\<close> and a
  key whose name begins with an underscore do not appear in the rendered output: such a
  key is not among the attributes that enter the rendering loop, and the output of
  \<^verbatim>\<open>generate_spider_attributes_code\<close> and of \<^verbatim>\<open>generate_spider_code\<close> is the output for
  the definition without that key. Every other entry of the namespace enters the loop,
  whatever its value: line 50 tests \<^verbatim>\<open>v is not None\<close> and nothing else.
\<close>

theorem hidden_attributes_omitted:
  assumes "distinct (map fst (cls_dict (classes st spider)))"
      and "startswith key ''_'' \<or> map_of (cls_dict (classes st spider)) key = Some PNone"
  shows "key \<notin> fst ` set (spider_attributes_sorted default_sort_order
                             (spider_attributes (cls_dict (classes st spider))))
       \<and> generate_spider_attributes_code (del_attribute st spider key) spider default_sort_order
           = generate_spider_attributes_code st spider default_sort_order
       \<and> generate_spider_code (del_attribute st spider key) spider = generate_spider_code st spider
       \<and> (\<forall>k v. (k, v) \<in> set (cls_dict (classes st spider)) \<and> \<not> startswith k ''_'' \<and> v \<noteq> PNone \<longrightarrow>
             (k, v) \<in> set (spider_attributes_sorted default_sort_order
                             (spider_attributes (cls_dict (classes st spider)))))"
proof -
  let ?d = "cls_dict (classes st spider)"
  have dso: "distinct default_sort_order" by (simp add: default_sort_order_def)
  from assms(1) have dA: "distinct (map fst (spider_attributes ?d))"
    by (rule spider_attributes_distinct)
  from dA dso have set_eq:
    "set (spider_attributes_sorted default_sort_order (spider_attributes ?d)) = set (spider_attributes ?d)"
    by (rule set_spider_attributes_sorted)
  from assms have "key \<notin> fst ` set (spider_attributes ?d)"
    by (rule hidden_not_in_spider_attributes)
  with set_eq have absent:
    "key \<notin> fst ` set (spider_attributes_sorted default_sort_order (spider_attributes ?d))"
    by simp
  have "cls_dict (classes (del_attribute st spider key) spider) = filter (\<lambda>kv. fst kv \<noteq> key) ?d"
    by (simp add: del_attribute_def)
  with assms have "spider_attributes (cls_dict (classes (del_attribute st spider key) spider))
                     = spider_attributes ?d"
    by (simp add: spider_attributes_del_hidden)
  then have attrs:
    "generate_spider_attributes_code (del_attribute st spider key) spider default_sort_order
       = generate_spider_attributes_code st spider default_sort_order"
    by (simp add: generate_spider_attributes_code_del) (simp add: generate_spider_attributes_code_def)
  then have code:
    "generate_spider_code (del_attribute st spider key) spider = generate_spider_code st spider"
    by (simp add: generate_spider_code_eq class_header_del split: sum.split)
  have others: "\<forall>k v. (k, v) \<in> set ?d \<and> \<not> startswith k ''_'' \<and> v \<noteq> PNone \<longrightarrow>
             (k, v) \<in> set (spider_attributes_sorted default_sort_order (spider_attributes ?d))"
    unfolding set_eq using assms(1) by (simp add: spider_attributes_filter)
  from absent attrs code others show ?thesis by blast
qed

text \<open>
  C4 at the example: the entry \<^verbatim>\<open>user_agent\<close>, which is \<^verbatim>\<open>None\<close>, and the private entry
  \<^verbatim>\<open>__module__\<close>.
\<close>

theorem hidden_attributes_omitted_witness:
  "generate_spider_code (del_attribute example_state 1 ''user_agent'') 1
     = generate_spider_code example_state 1
   \<and> generate_spider_code (del_attribute example_state 1 ''__module__'') 1
     = generate_spider_code example_state 1
   \<and> map_of (cls_dict (classes example_state 1)) ''user_agent'' = Some PNone
   \<and> startswith ''__module__'' ''_''"
proof -
  have d: "distinct (map fst (cls_dict (classes example_state 1)))"
    by (simp add: example_state_def acme_example_def)
  have n: "map_of (cls_dict (classes example_state 1)) ''user_agent'' = Some PNone"
    by (simp add: example_state_def acme_example_def)
  have u: "startswith ''__module__'' ''_''"
    by (simp add: startswith_def)
  from n have n': "startswith ''user_agent'' ''_''
                   \<or> map_of (cls_dict (classes example_state 1)) ''user_agent'' = Some PNone" ..
  from u have u': "startswith ''__module__'' ''_''
                   \<or> map_of (cls_dict (classes example_state 1)) ''__module__'' = Some PNone" ..
  from hidden_attributes_omitted [OF d n'] hidden_attributes_omitted [OF d u'] n u
  show ?thesis by blast
qed

text \<open>
  C4 as stated does not hold of values that are empty but not \<^verbatim>\<open>None\<close>: they are
  rendered. The keys \<^verbatim>\<open>name\<close>, \<^verbatim>\<open>item_attributes\<close> and \<^verbatim>\<open>start_urls\<close> of a class with
  \<^verbatim>\<open>name = ""\<close>, \<^verbatim>\<open>item_attributes = {}\<close> and \<^verbatim>\<open>start_urls = []\<close> all appear in the
  output.
\<close>

theorem empty_values_rendered:
  "generate_spider_attributes_code empty_values_state 0 default_sort_order =
     Inr ([NL, TAB] @ ''name = '' @ [DQ, DQ]
          @ [NL, TAB] @ ''item_attributes = {'' @ [NL, TAB] @ ''}''
          @ [NL, TAB] @ ''start_urls = ['' @ [NL, TAB] @ '']'')"
  by code_simp

text \<open>
  Claim C5. Per value, the loop body appends the block \<open>attribute_lines\<close> of the
  attribute (lemma \<open>render_attribute_eq\<close>): \<^verbatim>\<open>key = "value"\<close> for a string, with the value
  substituted as it is; a brace block with one line per string-valued entry for a
  dictionary; a bracket block with one line per string element for a sized iterable;
  nothing for a value without \<^verbatim>\<open>__len__\<close>. It does not do so for every value: the test
  of line 64 also admits a value that has \<^verbatim>\<open>__len__\<close> and cannot be iterated, and the
  loop of line 66 then raises \<^verbatim>\<open>TypeError\<close>. At the class with the attribute
  \<^verbatim>\<open>container = list\<close> both rendering functions raise.
\<close>

theorem rendering_raises_on_class_object:
  "generate_spider_attributes_code type_attribute_state 0 default_sort_order = Inl TypeError
   \<and> generate_spider_code type_attribute_state 0 = Inl TypeError"
  by code_simp

text \<open>
  Claim C8. For every spider definition, \<^verbatim>\<open>generate_spider_code\<close> emits one import line
  per base type, \<^verbatim>\<open>from <module> import <name>\<close>, in the order of \<^verbatim>\<open>__bases__\<close>; then an
  empty line pair and the class declaration that names the spider and lists the names
  of the base types in the same order, each but the last followed by a comma and a
  space; then the attributes. An exception of the attribute rendering is the only way
  not to return this text.
\<close>

theorem imports_and_class_declaration:
  "generate_spider_code st spider =
     (case generate_spider_attributes_code st spider default_sort_order of
        Inl e \<Rightarrow> Inl e
      | Inr attributes_code \<Rightarrow>
          Inr (concat (map (\<lambda>b. ''from '' @ format_value st (cls_module (classes st b)) @ '' import ''
                                 @ cls_name (classes st b) @ [NL])
                         (cls_bases (classes st spider)))
               @ [NL, NL] @ ''class '' @ cls_name (classes st spider) @ ''(''
               @ concat (map (\<lambda>b. cls_name (classes st b) @ '', '')
                           (butlast (cls_bases (classes st spider))))
               @ (if cls_bases (classes st spider) = [] then []
                  else cls_name (classes st (last (cls_bases (classes st spider)))))
               @ ''):'' @ attributes_code))"
proof -
  let ?bases = "cls_bases (classes st spider)"
  have imp: "import_line st = (\<lambda>b. ''from '' @ format_value st (cls_module (classes st b))
                                 @ '' import '' @ cls_name (classes st b) @ [NL])"
    by (rule ext) (simp add: import_line_def)
  have "join '', '' (map (\<lambda>b. cls_name (classes st b)) ?bases)
          = concat (map (\<lambda>b. cls_name (classes st b) @ '', '') (butlast ?bases))
            @ (if ?bases = [] then [] else cls_name (classes st (last ?bases)))"
    by (simp add: join_eq map_butlast [symmetric] last_map comp_def)
  with imp show ?thesis
    by (simp add: generate_spider_code_eq class_header_def split: sum.split)
qed

text \<open>
  C8 at the class \<^verbatim>\<open>AcmeStoresSpider\<close> with its three base types, and at the example
  with its one base type.
\<close>

theorem imports_and_class_declaration_witness:
  "generate_spider_code three_bases_state 3 =
     Inr (''from scrapy.spiders import CrawlSpider'' @ [NL]
          @ ''from locations.structured_data_spider import StructuredDataSpider'' @ [NL]
          @ ''from locations.automatic_spider_generator import AutomaticSpiderGenerator'' @ [NL]
          @ [NL, NL]
          @ ''class AcmeStoresSpider(CrawlSpider, StructuredDataSpider, AutomaticSpiderGenerator):''
          @ [NL, TAB] @ ''name = '' @ [DQ] @ ''acme_stores'' @ [DQ])
   \<and> (\<exists>attributes_code.
         generate_spider_attributes_code example_state 1 default_sort_order = Inr attributes_code
       \<and> generate_spider_code example_state 1 =
           Inr (''from scraping_lib import Spider'' @ [NL] @ [NL, NL]
                @ ''class acme_example(Spider):'' @ attributes_code))"
proof -
  have a3: "generate_spider_attributes_code three_bases_state 3 default_sort_order
              = Inr ([NL, TAB] @ ''name = '' @ [DQ] @ ''acme_stores'' @ [DQ])"
    by code_simp
  have b3: "cls_bases (classes three_bases_state 3) = [0, 1, 2]"
       "cls_name (classes three_bases_state 3) = ''AcmeStoresSpider''"
       "cls_name (classes three_bases_state 0) = ''CrawlSpider''"
       "cls_name (classes three_bases_state 1) = ''StructuredDataSpider''"
       "cls_name (classes three_bases_state 2) = ''AutomaticSpiderGenerator''"
       "cls_module (classes three_bases_state 0) = PStr ''scrapy.spiders''"
       "cls_module (classes three_bases_state 1) = PStr ''locations.structured_data_spider''"
       "cls_module (classes three_bases_state 2) = PStr ''locations.automatic_spider_generator''"
    by (simp_all add: three_bases_state_def)
  from a3 b3 imports_and_class_declaration [of three_bases_state 3]
  have 1: "generate_spider_code three_bases_state 3 =
     Inr (''from scrapy.spiders import CrawlSpider'' @ [NL]
          @ ''from locations.structured_data_spider import StructuredDataSpider'' @ [NL]
          @ ''from locations.automatic_spider_generator import AutomaticSpiderGenerator'' @ [NL]
          @ [NL, NL]
          @ ''class AcmeStoresSpider(CrawlSpider, StructuredDataSpider, AutomaticSpiderGenerator):''
          @ [NL, TAB] @ ''name = '' @ [DQ] @ ''acme_stores'' @ [DQ])"
    by (simp add: format_value_def)
  obtain a where a: "generate_spider_attributes_code example_state 1 default_sort_order = Inr a"
    using example_attributes_code by blast
  have "cls_bases (classes example_state 1) = [0]"
       "cls_name (classes example_state 1) = ''acme_example''"
       "cls_name (classes example_state 0) = ''Spider''"
       "cls_module (classes example_state 0) = PStr ''scraping_lib''"
    by (simp_all add: example_state_def acme_example_def spider_base_def)
  with a imports_and_class_declaration [of example_state 1]
  have 2: "\<exists>attributes_code.
         generate_spider_attributes_code example_state 1 default_sort_order = Inr attributes_code
       \<and> generate_spider_code example_state 1 =
           Inr (''from scraping_lib import Spider'' @ [NL] @ [NL, NL]
                @ ''class acme_example(Spider):'' @ attributes_code)"
    by (simp add: format_value_def)
  from 1 2 show ?thesis ..
qed
section \<open>Claims on the declaration hook\<close>

text \<open>
  Claim C3, as amended. Let a class be declared with keyword metadata, where the
  namespace of the class is a dictionary, the attribute \<^verbatim>\<open>item_attributes\<close> of the class,
  if it has or inherits one, is a dictionary, and the keyword \<^verbatim>\<open>extracted_attributes\<close>,
  if given and true, is a dictionary of names that \<^verbatim>\<open>setattr\<close> writes to the namespace of
  a class. Then the hook returns, and in the store it leaves: a true \<^verbatim>\<open>brand_wikidata\<close>
  is an entry of the dictionary that \<^verbatim>\<open>item_attributes\<close> resolved to when the hook ran
  (a new one if the class had and inherited none), and with it a true \<^verbatim>\<open>brand\<close>;
  likewise \<^verbatim>\<open>operator_wikidata\<close> and \<^verbatim>\<open>operator\<close>; every entry of
  \<^verbatim>\<open>extracted_attributes\<close> is an attribute of the class itself. These entries are set
  last: unless \<^verbatim>\<open>item_attributes\<close> is among them, the attribute \<^verbatim>\<open>item_attributes\<close> of
  the class resolves to the dictionary that was written; unless \<^verbatim>\<open>name\<close> is among them,
  a true \<^verbatim>\<open>spider_key\<close> is the value of the class's own attribute \<^verbatim>\<open>name\<close>, whether or
  not the class body defined one, and every rendering of the class that returns begins
  with the name line of the \<^verbatim>\<open>spider_key\<close>. The enrichment is the effect of the
  declaration: the rendering functions take the store and return a text.
\<close>

theorem declaration_enrichment:
  assumes "item_attributes_ok st cls" and "extracted_attributes_ok st kwargs"
      and "distinct (map fst (cls_dict (classes st cls)))"
  shows "\<exists>st'. init_subclass st cls kwargs = Inr st'
     \<and> (\<forall>w. given st kwargs ''brand_wikidata'' w \<longrightarrow>
          map_of (heap st' (item_attributes_address st cls)) ''brand_wikidata'' = Some w)
     \<and> (\<forall>w b. given st kwargs ''brand_wikidata'' w \<and> given st kwargs ''brand'' b \<longrightarrow>
          map_of (heap st' (item_attributes_address st cls)) ''brand'' = Some b)
     \<and> (\<forall>w. given st kwargs ''operator_wikidata'' w \<longrightarrow>
          map_of (heap st' (item_attributes_address st cls)) ''operator_wikidata'' = Some w)
     \<and> (\<forall>w b. given st kwargs ''operator_wikidata'' w \<and> given st kwargs ''operator'' b \<longrightarrow>
          map_of (heap st' (item_attributes_address st cls)) ''operator'' = Some b)
     \<and> (((\<exists>w. given st kwargs ''brand_wikidata'' w) \<or> (\<exists>w. given st kwargs ''operator_wikidata'' w))
          \<and> \<not> overrides st' kwargs ''item_attributes'' \<longrightarrow>
          class_getattr st' cls ''item_attributes'' = Some (PDict (item_attributes_address st cls)))
     \<and> (\<forall>n. given st kwargs ''spider_key'' n \<and> \<not> overrides st' kwargs ''name'' \<longrightarrow>
          map_of (cls_dict (classes st' cls)) ''name'' = Some n)
     \<and> (\<forall>e k v. map_of kwargs ''extracted_attributes'' = Some (PDict e) \<and> (k, v) \<in> set (heap st' e) \<longrightarrow>
          map_of (cls_dict (classes st' cls)) k = Some v)
     \<and> (\<forall>s code. given st kwargs ''spider_key'' (PStr s) \<and> \<not> overrides st' kwargs ''name''
              \<and> generate_spider_attributes_code st' cls default_sort_order = Inr code \<longrightarrow>
          (\<exists>rest. code = [NL, TAB] @ ''name = '' @ [DQ] @ s @ [DQ] @ rest))"
proof -
  let ?t = "item_attributes_address st cls"
  from init_subclass_spec [OF assms(1,2)] obtain st2 items where
    r: "init_subclass st cls kwargs = Inr (store_items (renamed st2 cls kwargs) cls items)"
    and di: "distinct (map fst items)"
    and i1: "\<forall>e. map_of kwargs ''extracted_attributes'' = Some (PDict e) \<longrightarrow> items = heap st2 e"
    and i2: "(\<forall>e. map_of kwargs ''extracted_attributes'' \<noteq> Some (PDict e)) \<longrightarrow> items = []"
    and c1: "\<forall>w. given st kwargs ''brand_wikidata'' w \<longrightarrow>
          map_of (heap st2 ?t) ''brand_wikidata'' = Some w"
    and c2: "\<forall>w l. given st kwargs ''brand_wikidata'' w \<and> given st kwargs ''brand'' l \<longrightarrow>
          map_of (heap st2 ?t) ''brand'' = Some l"
    and c3: "\<forall>w. given st kwargs ''operator_wikidata'' w \<longrightarrow>
          map_of (heap st2 ?t) ''operator_wikidata'' = Some w"
    and c4: "\<forall>w l. given st kwargs ''operator_wikidata'' w \<and> given st kwargs ''operator'' l \<longrightarrow>
          map_of (heap st2 ?t) ''operator'' = Some l"
    and c5: "(\<exists>w. given st kwargs ''brand_wikidata'' w) \<or> (\<exists>w. given st kwargs ''operator_wikidata'' w) \<longrightarrow>
          class_getattr st2 cls ''item_attributes'' = Some (PDict ?t)"
    and c6: "\<forall>v. truthy st v \<longrightarrow> truthy st2 v"
    and c12: "distinct (map fst (cls_dict (classes st cls))) \<longrightarrow>
          distinct (map fst (cls_dict (classes st2 cls)))"
    by (elim exE conjE) (rule that; assumption)
  let ?st3 = "renamed st2 cls kwargs"
  let ?st' = "store_items ?st3 cls items"
  have h: "heap ?st' = heap st2" by simp
  from c12 assms(3) have "distinct (map fst (cls_dict (classes st2 cls)))" by simp
  then have "distinct (map fst (cls_dict (classes ?st3 cls)))" by (rule renamed_namespace_distinct)
  then have dns: "distinct (map fst (cls_dict (classes ?st' cls)))"
    by (rule store_items_namespace_distinct)
  have keys: "name \<notin> fst ` set items" if "\<not> overrides ?st' kwargs name" for name
  proof (cases "\<exists>e. map_of kwargs ''extracted_attributes'' = Some (PDict e)")
    case True
    then obtain e where e: "map_of kwargs ''extracted_attributes'' = Some (PDict e)" by blast
    with i1 have "items = heap st2 e" by simp
    with that e show ?thesis by (simp add: overrides_def)
  next
    case False
    with i2 show ?thesis by simp
  qed
  have p5: "((\<exists>w. given st kwargs ''brand_wikidata'' w) \<or> (\<exists>w. given st kwargs ''operator_wikidata'' w))
          \<and> \<not> overrides ?st' kwargs ''item_attributes'' \<longrightarrow>
          class_getattr ?st' cls ''item_attributes'' = Some (PDict ?t)"
  proof
    assume a: "((\<exists>w. given st kwargs ''brand_wikidata'' w) \<or> (\<exists>w. given st kwargs ''operator_wikidata'' w))
          \<and> \<not> overrides ?st' kwargs ''item_attributes''"
    then have "''item_attributes'' \<notin> fst ` set items" by (simp add: keys)
    then have "class_getattr ?st' cls ''item_attributes'' = class_getattr ?st3 cls ''item_attributes''"
      by (rule class_getattr_store_items_other)
    also have "\<dots> = class_getattr st2 cls ''item_attributes''"
      by (rule class_getattr_renamed_other) simp
    finally show "class_getattr ?st' cls ''item_attributes'' = Some (PDict ?t)"
      using a c5 by simp
  qed
  have p6: "\<forall>n. given st kwargs ''spider_key'' n \<and> \<not> overrides ?st' kwargs ''name'' \<longrightarrow>
          map_of (cls_dict (classes ?st' cls)) ''name'' = Some n"
  proof (intro allI impI)
    fix n assume a: "given st kwargs ''spider_key'' n \<and> \<not> overrides ?st' kwargs ''name''"
    then have "given st2 kwargs ''spider_key'' n" using c6 by (auto intro: given_mono)
    then have "map_of (cls_dict (classes ?st3 cls)) ''name'' = Some n"
      by (rule own_name_renamed)
    moreover from a have "''name'' \<notin> fst ` set items" by (simp add: keys)
    ultimately show "map_of (cls_dict (classes ?st' cls)) ''name'' = Some n"
      by (simp add: own_store_items_other)
  qed
  have p7: "\<forall>e k v. map_of kwargs ''extracted_attributes'' = Some (PDict e) \<and> (k, v) \<in> set (heap ?st' e) \<longrightarrow>
          map_of (cls_dict (classes ?st' cls)) k = Some v"
  proof (intro allI impI)
    fix e k v
    assume a: "map_of kwargs ''extracted_attributes'' = Some (PDict e) \<and> (k, v) \<in> set (heap ?st' e)"
    with i1 have "(k, v) \<in> set items" by simp
    with di show "map_of (cls_dict (classes ?st' cls)) k = Some v"
      by (rule own_store_items_item)
  qed
  have p8: "\<forall>s code. given st kwargs ''spider_key'' (PStr s) \<and> \<not> overrides ?st' kwargs ''name''
              \<and> generate_spider_attributes_code ?st' cls default_sort_order = Inr code \<longrightarrow>
          (\<exists>rest. code = [NL, TAB] @ ''name = '' @ [DQ] @ s @ [DQ] @ rest)"
  proof (intro allI impI)
    fix s code
    assume a: "given st kwargs ''spider_key'' (PStr s) \<and> \<not> overrides ?st' kwargs ''name''
              \<and> generate_spider_attributes_code ?st' cls default_sort_order = Inr code"
    with p6 have n: "map_of (cls_dict (classes ?st' cls)) ''name'' = Some (PStr s)" by blast
    from a have c: "generate_spider_attributes_code ?st' cls default_sort_order = Inr code" by blast
    from dns n c show "\<exists>rest. code = [NL, TAB] @ ''name = '' @ [DQ] @ s @ [DQ] @ rest"
      by (rule name_line_first)
  qed
  from c1 have p1: "\<forall>w. given st kwargs ''brand_wikidata'' w \<longrightarrow>
          map_of (heap ?st' ?t) ''brand_wikidata'' = Some w" unfolding h .
  from c2 have p2: "\<forall>w l. given st kwargs ''brand_wikidata'' w \<and> given st kwargs ''brand'' l \<longrightarrow>
          map_of (heap ?st' ?t) ''brand'' = Some l" unfolding h .
  from c3 have p3: "\<forall>w. given st kwargs ''operator_wikidata'' w \<longrightarrow>
          map_of (heap ?st' ?t) ''operator_wikidata'' = Some w" unfolding h .
  from c4 have p4: "\<forall>w l. given st kwargs ''operator_wikidata'' w \<and> given st kwargs ''operator'' l \<longrightarrow>
          map_of (heap ?st' ?t) ''operator'' = Some l" unfolding h .
  show ?thesis
    by (rule exI [of _ ?st'], intro conjI) (fact r p1 p2 p3 p4 p5 p6 p7 p8)+
qed

text \<open>
  C3 at the declaration \<^verbatim>\<open>class NewSpider(AutomaticSpiderGenerator, brand_wikidata="Q1",
  brand="Acme", spider_key="new_name", extracted_attributes={...})\<close>, whose body has
  \<^verbatim>\<open>name = "old_name"\<close>.
\<close>

theorem declaration_enrichment_witness:
  "item_attributes_ok declaration_state 3
   \<and> extracted_attributes_ok declaration_state enrichment_kwargs
   \<and> distinct (map fst (cls_dict (classes declaration_state 3)))
   \<and> given declaration_state enrichment_kwargs ''brand_wikidata'' (PStr ''Q1'')
   \<and> given declaration_state enrichment_kwargs ''brand'' (PStr ''Acme'')
   \<and> given declaration_state enrichment_kwargs ''spider_key'' (PStr ''new_name'')
   \<and> map_of (cls_dict (classes declaration_state 3)) ''name'' = Some (PStr ''old_name'')
   \<and> (\<exists>st'. init_subclass declaration_state 3 enrichment_kwargs = Inr st'
         \<and> map_of (heap st' (item_attributes_address declaration_state 3)) ''brand_wikidata''
             = Some (PStr ''Q1'')
         \<and> map_of (heap st' (item_attributes_address declaration_state 3)) ''brand''
             = Some (PStr ''Acme'')
         \<and> class_getattr st' 3 ''item_attributes''
             = Some (PDict (item_attributes_address declaration_state 3))
         \<and> map_of (cls_dict (classes st' 3)) ''name'' = Some (PStr ''new_name'')
         \<and> map_of (cls_dict (classes st' 3)) ''allowed_domains'' = Some (PSeq [PStr ''acme.example''])
         \<and> (\<exists>rest. generate_spider_attributes_code st' 3 default_sort_order
                      = Inr ([NL, TAB] @ ''name = '' @ [DQ] @ ''new_name'' @ [DQ] @ rest)))"
proof -
  have ok: "item_attributes_ok declaration_state 3" by code_simp
  have ex: "extracted_attributes_ok declaration_state enrichment_kwargs" by code_simp
  have dn: "distinct (map fst (cls_dict (classes declaration_state 3)))"
    by (simp add: declaration_state_def new_spider_def)
  have g1: "given declaration_state enrichment_kwargs ''brand_wikidata'' (PStr ''Q1'')"
    and g2: "given declaration_state enrichment_kwargs ''brand'' (PStr ''Acme'')"
    and g3: "given declaration_state enrichment_kwargs ''spider_key'' (PStr ''new_name'')"
    by (simp_all add: given_def enrichment_kwargs_def)
  have old: "map_of (cls_dict (classes declaration_state 3)) ''name'' = Some (PStr ''old_name'')"
    by (simp add: declaration_state_def new_spider_def)
  have e: "map_of enrichment_kwargs ''extracted_attributes'' = Some (PDict 1)"
    by (simp add: enrichment_kwargs_def)
  from declaration_enrichment [OF ok ex dn] obtain st' where
    r: "init_subclass declaration_state 3 enrichment_kwargs = Inr st'"
    and p1: "\<forall>w. given declaration_state enrichment_kwargs ''brand_wikidata'' w \<longrightarrow>
          map_of (heap st' (item_attributes_address declaration_state 3)) ''brand_wikidata'' = Some w"
    and p2: "\<forall>w b. given declaration_state enrichment_kwargs ''brand_wikidata'' w
                \<and> given declaration_state enrichment_kwargs ''brand'' b \<longrightarrow>
          map_of (heap st' (item_attributes_address declaration_state 3)) ''brand'' = Some b"
    and p3: "\<forall>w. given declaration_state enrichment_kwargs ''operator_wikidata'' w \<longrightarrow>
          map_of (heap st' (item_attributes_address declaration_state 3)) ''operator_wikidata'' = Some w"
    and p4: "\<forall>w b. given declaration_state enrichment_kwargs ''operator_wikidata'' w
                \<and> given declaration_state enrichment_kwargs ''operator'' b \<longrightarrow>
          map_of (heap st' (item_attributes_address declaration_state 3)) ''operator'' = Some b"
    and p5: "((\<exists>w. given declaration_state enrichment_kwargs ''brand_wikidata'' w)
               \<or> (\<exists>w. given declaration_state enrichment_kwargs ''operator_wikidata'' w))
          \<and> \<not> overrides st' enrichment_kwargs ''item_attributes'' \<longrightarrow>
          class_getattr st' 3 ''item_attributes''
            = Some (PDict (item_attributes_address declaration_state 3))"
    and p6: "\<forall>n. given declaration_state enrichment_kwargs ''spider_key'' n
               \<and> \<not> overrides st' enrichment_kwargs ''name'' \<longrightarrow>
          map_of (cls_dict (classes st' 3)) ''name'' = Some n"
    and p7: "\<forall>e k v. map_of enrichment_kwargs ''extracted_attributes'' = Some (PDict e)
               \<and> (k, v) \<in> set (heap st' e) \<longrightarrow>
          map_of (cls_dict (classes st' 3)) k = Some v"
    and p8: "\<forall>s code. given declaration_state enrichment_kwargs ''spider_key'' (PStr s)
              \<and> \<not> overrides st' enrichment_kwargs ''name''
              \<and> generate_spider_attributes_code st' 3 default_sort_order = Inr code \<longrightarrow>
          (\<exists>rest. code = [NL, TAB] @ ''name = '' @ [DQ] @ s @ [DQ] @ rest)"
    by (elim exE conjE) (rule that; assumption)
  have st': "st' = projr (init_subclass declaration_state 3 enrichment_kwargs)"
    by (simp add: r)
  have h1: "heap st' 1 = [(''allowed_domains'', PSeq [PStr ''acme.example'']),
                          (''start_urls'', PSeq [PStr ''https://acme.example/stores''])]"
    unfolding st' by code_simp
  then have no1: "\<not> overrides st' enrichment_kwargs ''item_attributes''"
    and no2: "\<not> overrides st' enrichment_kwargs ''name''"
    by (simp_all add: overrides_def e)
  have "case generate_spider_attributes_code st' 3 default_sort_order of
          Inl e \<Rightarrow> False | Inr code \<Rightarrow> True"
    unfolding st' by code_simp
  then obtain code where code: "generate_spider_attributes_code st' 3 default_sort_order = Inr code"
    by (cases "generate_spider_attributes_code st' 3 default_sort_order") simp_all
  from p1 g1 have q1: "map_of (heap st' (item_attributes_address declaration_state 3)) ''brand_wikidata''
             = Some (PStr ''Q1'')" by blast
  from p2 g1 g2 have q2: "map_of (heap st' (item_attributes_address declaration_state 3)) ''brand''
             = Some (PStr ''Acme'')" by blast
  from p5 g1 no1 have q3: "class_getattr st' 3 ''item_attributes''
             = Some (PDict (item_attributes_address declaration_state 3))" by blast
  from p6 g3 no2 have q4: "map_of (cls_dict (classes st' 3)) ''name'' = Some (PStr ''new_name'')"
    by blast
  from h1 have "(''allowed_domains'', PSeq [PStr ''acme.example'']) \<in> set (heap st' 1)" by simp
  with p7 e have q5: "map_of (cls_dict (classes st' 3)) ''allowed_domains'' = Some (PSeq [PStr ''acme.example''])"
    by blast
  from p8 g3 no2 code obtain rest where
    "code = [NL, TAB] @ ''name = '' @ [DQ] @ ''new_name'' @ [DQ] @ rest" by blast
  with code have q6: "\<exists>rest. generate_spider_attributes_code st' 3 default_sort_order
                      = Inr ([NL, TAB] @ ''name = '' @ [DQ] @ ''new_name'' @ [DQ] @ rest)"
    by blast
  have "\<exists>st'. init_subclass declaration_state 3 enrichment_kwargs = Inr st'
         \<and> map_of (heap st' (item_attributes_address declaration_state 3)) ''brand_wikidata''
             = Some (PStr ''Q1'')
         \<and> map_of (heap st' (item_attributes_address declaration_state 3)) ''brand''
             = Some (PStr ''Acme'')
         \<and> class_getattr st' 3 ''item_attributes''
             = Some (PDict (item_attributes_address declaration_state 3))
         \<and> map_of (cls_dict (classes st' 3)) ''name'' = Some (PStr ''new_name'')
         \<and> map_of (cls_dict (classes st' 3)) ''allowed_domains'' = Some (PSeq [PStr ''acme.example''])
         \<and> (\<exists>rest. generate_spider_attributes_code st' 3 default_sort_order
                      = Inr ([NL, TAB] @ ''name = '' @ [DQ] @ ''new_name'' @ [DQ] @ rest))"
    by (rule exI [of _ st'], intro conjI) (fact r q1 q2 q3 q4 q5 q6)+
  with ok ex dn g1 g2 g3 old show ?thesis by (intro conjI)
qed

text \<open>
  C3 as stated does not hold of every declaration. The entries of
  \<^verbatim>\<open>extracted_attributes\<close> are set last (lines 153 to 155). At the declaration
  \<^verbatim>\<open>class NewSpider(AutomaticSpiderGenerator, spider_key="from_key", brand_wikidata="Q1",
  extracted_attributes={"name": "from_extracted", "item_attributes": {"country": "DE"}})\<close>
  the attribute \<^verbatim>\<open>name\<close> of the class is \<^verbatim>\<open>from_extracted\<close> and not the \<^verbatim>\<open>spider_key\<close>, and
  the attribute \<^verbatim>\<open>item_attributes\<close> is the extracted dictionary (address 4), which has no
  entry \<^verbatim>\<open>brand_wikidata\<close>: the identifier went to the dictionary that line 138 created
  (address 6), which is no attribute of the class any more. And an entry whose name
  \<^verbatim>\<open>setattr\<close> rejects does not become an attribute: with
  \<^verbatim>\<open>extracted_attributes={"__mro__": ()}\<close> the declaration raises \<^verbatim>\<open>AttributeError\<close>.
\<close>

theorem extracted_attributes_override:
  "map_of override_kwargs ''spider_key'' = Some (PStr ''from_key'')
   \<and> (case init_subclass override_state 3 override_kwargs of
         Inl e \<Rightarrow> None
       | Inr st' \<Rightarrow>
           Some (map_of (cls_dict (classes st' 3)) ''name'',
                 class_getattr st' 3 ''item_attributes'',
                 heap st' 4, heap st' 6))
       = Some (Some (PStr ''from_extracted''), Some (PDict 4),
               [(''country'', PStr ''DE'')], [(''brand_wikidata'', PStr ''Q1'')])
   \<and> (case init_subclass override_state 3 readonly_kwargs of
         Inl e \<Rightarrow> Some e
       | Inr st' \<Rightarrow> None)
       = Some AttributeError"
  by code_simp
text \<open>
  Claim C9. Enrichment aliases inherited state. Let a class be declared with a true
  \<^verbatim>\<open>brand_wikidata\<close> or \<^verbatim>\<open>operator_wikidata\<close>, with no \<^verbatim>\<open>item_attributes\<close> in its own
  namespace, and let it inherit one, the dictionary at address \<open>t\<close> (the pre-extracted
  attributes, if any are given, being a dictionary of names that \<^verbatim>\<open>setattr\<close> writes to
  the namespace of a class, so that line 155 does not raise). Then the hook
  writes that dictionary in place: afterwards the dictionary at \<open>t\<close> holds the keyword,
  no dictionary has been created, the class still has no \<^verbatim>\<open>item_attributes\<close> of its own
  and still resolves the attribute to \<open>t\<close> (unless the pre-extracted attributes set one),
  and every other class whose \<^verbatim>\<open>item_attributes\<close> was that dictionary (the base class
  and all classes that share it) still resolves to it and so sees the new entry.
\<close>

theorem enrichment_aliases_inherited_mapping:
  assumes own: "map_of (cls_dict (classes st cls)) ''item_attributes'' = None"
      and inh: "class_getattr st cls ''item_attributes'' = Some (PDict t)"
      and key: "wk = ''brand_wikidata'' \<or> wk = ''operator_wikidata''"
      and w: "given st kwargs wk w"
      and ex: "extracted_attributes_ok st kwargs"
  shows "\<exists>st'. init_subclass st cls kwargs = Inr st'
     \<and> map_of (heap st' t) wk = Some w
     \<and> next_addr st' = next_addr st
     \<and> (\<not> overrides st' kwargs ''item_attributes'' \<longrightarrow>
          map_of (cls_dict (classes st' cls)) ''item_attributes'' = None
          \<and> class_getattr st' cls ''item_attributes'' = Some (PDict t))
     \<and> (\<forall>c. c \<noteq> cls \<and> cls \<notin> set (cls_ancestors (classes st c))
              \<and> class_getattr st c ''item_attributes'' = Some (PDict t) \<longrightarrow>
            class_getattr st' c ''item_attributes'' = Some (PDict t)
            \<and> map_of (heap st' t) wk = Some w)"
proof -
  from inh have ok: "item_attributes_ok st cls" and addr: "item_attributes_address st cls = t"
    by (simp_all add: item_attributes_ok_def item_attributes_address_def)
  from inh have some: "class_getattr st cls ''item_attributes'' \<noteq> None" by simp
  from init_subclass_spec [OF ok ex] obtain st2 items where
    r: "init_subclass st cls kwargs = Inr (store_items (renamed st2 cls kwargs) cls items)"
    and di: "distinct (map fst items)"
    and i1: "\<forall>e. map_of kwargs ''extracted_attributes'' = Some (PDict e) \<longrightarrow> items = heap st2 e"
    and i2: "(\<forall>e. map_of kwargs ''extracted_attributes'' \<noteq> Some (PDict e)) \<longrightarrow> items = []"
    and c1: "\<forall>w. given st kwargs ''brand_wikidata'' w \<longrightarrow>
          map_of (heap st2 t) ''brand_wikidata'' = Some w"
    and c2: "\<forall>w l. given st kwargs ''brand_wikidata'' w \<and> given st kwargs ''brand'' l \<longrightarrow>
          map_of (heap st2 t) ''brand'' = Some l"
    and c3: "\<forall>w. given st kwargs ''operator_wikidata'' w \<longrightarrow>
          map_of (heap st2 t) ''operator_wikidata'' = Some w"
    and c4: "\<forall>w l. given st kwargs ''operator_wikidata'' w \<and> given st kwargs ''operator'' l \<longrightarrow>
          map_of (heap st2 t) ''operator'' = Some l"
    and c5: "(\<exists>w. given st kwargs ''brand_wikidata'' w) \<or> (\<exists>w. given st kwargs ''operator_wikidata'' w) \<longrightarrow>
          class_getattr st2 cls ''item_attributes'' = Some (PDict t)"
    and c6: "\<forall>v. truthy st v \<longrightarrow> truthy st2 v"
    and c7: "class_getattr st cls ''item_attributes'' \<noteq> None \<longrightarrow>
          classes st2 = classes st \<and> next_addr st2 = next_addr st"
    unfolding addr by (elim exE conjE) (rule that; assumption)
  let ?st3 = "renamed st2 cls kwargs"
  let ?st' = "store_items ?st3 cls items"
  from c7 some have cl: "classes st2 = classes st" and na: "next_addr st2 = next_addr st"
    by simp_all
  from key w c1 c3 have q1: "map_of (heap ?st' t) wk = Some w" by auto
  from na have q2: "next_addr ?st' = next_addr st" by simp
  have keys: "''item_attributes'' \<notin> fst ` set items" if "\<not> overrides ?st' kwargs ''item_attributes''"
  proof (cases "\<exists>e. map_of kwargs ''extracted_attributes'' = Some (PDict e)")
    case True
    then obtain e where e: "map_of kwargs ''extracted_attributes'' = Some (PDict e)" by blast
    with i1 have "items = heap st2 e" by simp
    with that e show ?thesis by (simp add: overrides_def)
  next
    case False
    with i2 show ?thesis by simp
  qed
  have q3: "\<not> overrides ?st' kwargs ''item_attributes'' \<longrightarrow>
          map_of (cls_dict (classes ?st' cls)) ''item_attributes'' = None
          \<and> class_getattr ?st' cls ''item_attributes'' = Some (PDict t)"
  proof
    assume "\<not> overrides ?st' kwargs ''item_attributes''"
    then have k: "''item_attributes'' \<notin> fst ` set items" by (rule keys)
    then have "map_of (cls_dict (classes ?st' cls)) ''item_attributes''
                 = map_of (cls_dict (classes ?st3 cls)) ''item_attributes''"
      by (rule own_store_items_other)
    also have "\<dots> = map_of (cls_dict (classes st2 cls)) ''item_attributes''"
      by (rule own_renamed_other) simp
    finally have a: "map_of (cls_dict (classes ?st' cls)) ''item_attributes'' = None"
      using own cl by simp
    from k have "class_getattr ?st' cls ''item_attributes'' = class_getattr ?st3 cls ''item_attributes''"
      by (rule class_getattr_store_items_other)
    also have "\<dots> = class_getattr st2 cls ''item_attributes''"
      by (rule class_getattr_renamed_other) simp
    also have "\<dots> = class_getattr st cls ''item_attributes''"
      by (rule class_getattr_cong) (simp_all add: cl)
    finally have b: "class_getattr ?st' cls ''item_attributes'' = Some (PDict t)"
      using inh by simp
    from a b show "map_of (cls_dict (classes ?st' cls)) ''item_attributes'' = None
          \<and> class_getattr ?st' cls ''item_attributes'' = Some (PDict t)" ..
  qed
  have q4: "\<forall>c. c \<noteq> cls \<and> cls \<notin> set (cls_ancestors (classes st c))
              \<and> class_getattr st c ''item_attributes'' = Some (PDict t) \<longrightarrow>
            class_getattr ?st' c ''item_attributes'' = Some (PDict t)
            \<and> map_of (heap ?st' t) wk = Some w"
  proof (intro allI impI)
    fix c
    assume a: "c \<noteq> cls \<and> cls \<notin> set (cls_ancestors (classes st c))
              \<and> class_getattr st c ''item_attributes'' = Some (PDict t)"
    have same: "classes ?st' c' = classes st c'" if "c' \<noteq> cls" for c'
      using that by (simp add: classes_store_items_other classes_renamed_other cl)
    have "class_getattr ?st' c ''item_attributes'' = class_getattr st c ''item_attributes''"
    proof (rule class_getattr_cong)
      from a show "cls_ancestors (classes ?st' c) = cls_ancestors (classes st c)"
        by (simp add: same)
    next
      fix c' assume "c' \<in> set (c # cls_ancestors (classes st c))"
      with a have "c' \<noteq> cls" by auto
      then show "map_of (cls_dict (classes ?st' c')) ''item_attributes''
                   = map_of (cls_dict (classes st c')) ''item_attributes''"
        by (simp add: same)
    qed
    with a q1 show "class_getattr ?st' c ''item_attributes'' = Some (PDict t)
            \<and> map_of (heap ?st' t) wk = Some w" by simp
  qed
  show ?thesis
    by (rule exI [of _ ?st'], intro conjI) (fact r q1 q2 q3 q4)+
qed

text \<open>
  C9 at the declaration \<^verbatim>\<open>class LaterSpider(ExampleLocatorSpider, brand_wikidata="Q1")\<close>:
  the entry appears in the dictionary of \<^verbatim>\<open>ExampleLocatorSpider\<close> (class 1), which
  \<^verbatim>\<open>EarlierSpider\<close> (class 2) shares.
\<close>

theorem enrichment_aliases_inherited_mapping_witness:
  "map_of (cls_dict (classes declaration_state 4)) ''item_attributes'' = None
   \<and> class_getattr declaration_state 4 ''item_attributes'' = Some (PDict 0)
   \<and> given declaration_state brand_kwargs ''brand_wikidata'' (PStr ''Q1'')
   \<and> extracted_attributes_ok declaration_state brand_kwargs
   \<and> map_of (heap declaration_state 0) ''brand_wikidata'' = None
   \<and> class_getattr declaration_state 1 ''item_attributes'' = Some (PDict 0)
   \<and> class_getattr declaration_state 2 ''item_attributes'' = Some (PDict 0)
   \<and> (\<exists>st'. init_subclass declaration_state 4 brand_kwargs = Inr st'
         \<and> map_of (heap st' 0) ''brand_wikidata'' = Some (PStr ''Q1'')
         \<and> next_addr st' = next_addr declaration_state
         \<and> map_of (cls_dict (classes st' 4)) ''item_attributes'' = None
         \<and> class_getattr st' 4 ''item_attributes'' = Some (PDict 0)
         \<and> class_getattr st' 1 ''item_attributes'' = Some (PDict 0)
         \<and> class_getattr st' 2 ''item_attributes'' = Some (PDict 0))"
proof -
  have own: "map_of (cls_dict (classes declaration_state 4)) ''item_attributes'' = None"
    by code_simp
  have inh: "class_getattr declaration_state 4 ''item_attributes'' = Some (PDict 0)"
    by code_simp
  have key: "''brand_wikidata'' = ''brand_wikidata'' \<or> ''brand_wikidata'' = ''operator_wikidata''"
    by simp
  have w: "given declaration_state brand_kwargs ''brand_wikidata'' (PStr ''Q1'')"
    by (simp add: given_def brand_kwargs_def)
  have ex: "extracted_attributes_ok declaration_state brand_kwargs"
    by (simp add: extracted_attributes_ok_def brand_kwargs_def)
  have before: "map_of (heap declaration_state 0) ''brand_wikidata'' = None"
    by (simp add: declaration_state_def)
  have s1: "class_getattr declaration_state 1 ''item_attributes'' = Some (PDict 0)"
    and s2: "class_getattr declaration_state 2 ''item_attributes'' = Some (PDict 0)"
    by code_simp+
  have a1: "(1::nat) \<noteq> 4 \<and> 4 \<notin> set (cls_ancestors (classes declaration_state 1))"
    and a2: "(2::nat) \<noteq> 4 \<and> 4 \<notin> set (cls_ancestors (classes declaration_state 2))"
    by (simp_all add: declaration_state_def locator_base_def earlier_spider_def)
  have no: "\<not> overrides s brand_kwargs ''item_attributes''" for s
    by (simp add: overrides_def brand_kwargs_def)
  from enrichment_aliases_inherited_mapping [OF own inh key w ex] obtain st' where
    r: "init_subclass declaration_state 4 brand_kwargs = Inr st'"
    and q1: "map_of (heap st' 0) ''brand_wikidata'' = Some (PStr ''Q1'')"
    and q2: "next_addr st' = next_addr declaration_state"
    and q3: "\<not> overrides st' brand_kwargs ''item_attributes'' \<longrightarrow>
          map_of (cls_dict (classes st' 4)) ''item_attributes'' = None
          \<and> class_getattr st' 4 ''item_attributes'' = Some (PDict 0)"
    and q4: "\<forall>c. c \<noteq> 4 \<and> 4 \<notin> set (cls_ancestors (classes declaration_state c))
              \<and> class_getattr declaration_state c ''item_attributes'' = Some (PDict 0) \<longrightarrow>
            class_getattr st' c ''item_attributes'' = Some (PDict 0)
            \<and> map_of (heap st' 0) ''brand_wikidata'' = Some (PStr ''Q1'')"
    by (elim exE conjE) (rule that; assumption)
  from q3 no have q3': "map_of (cls_dict (classes st' 4)) ''item_attributes'' = None"
    "class_getattr st' 4 ''item_attributes'' = Some (PDict 0)" by simp_all
  from q4 a1 s1 have q5: "class_getattr st' 1 ''item_attributes'' = Some (PDict 0)" by blast
  from q4 a2 s2 have q6: "class_getattr st' 2 ''item_attributes'' = Some (PDict 0)" by blast
  from own inh w ex before s1 s2 r q1 q2 q3' q5 q6 show ?thesis by blast
qed

text \<open>
  Claim C10, as amended. Falsy metadata is ignored. If every enrichment keyword that is
  given (\<^verbatim>\<open>brand_wikidata\<close>, \<^verbatim>\<open>operator_wikidata\<close>, \<^verbatim>\<open>spider_key\<close>,
  \<^verbatim>\<open>extracted_attributes\<close>) has a false value, the hook returns and leaves the store as
  it was: the class is not renamed, nothing is added to any dictionary, no attribute is
  set. And a recognized keyword that is bound to a value that is false and stays false
  while the hook runs (\<^verbatim>\<open>None\<close>, \<^verbatim>\<open>False\<close>, \<^verbatim>\<open>0\<close>, an empty string, list, tuple or set,
  or an empty dictionary other than the one that the wikidata blocks write) has the
  effect of a keyword that is not given, whatever the other keywords are.
\<close>

theorem falsy_metadata_ignored:
  "((\<forall>key v. key \<in> set enrichment_keywords \<and> map_of kwargs key = Some v \<longrightarrow> \<not> truthy st v)
      \<longrightarrow> init_subclass st cls kwargs = Inr st)
   \<and> (\<forall>key v. key \<in> set recognized_keywords \<and> map_of kwargs key = Some v \<and> stays_false st cls v
        \<longrightarrow> init_subclass st cls kwargs
              = init_subclass st cls (filter (\<lambda>kv. fst kv \<noteq> key) kwargs))"
proof (intro conjI allI impI)
  assume "\<forall>key v. key \<in> set enrichment_keywords \<and> map_of kwargs key = Some v \<longrightarrow> \<not> truthy st v"
  then show "init_subclass st cls kwargs = Inr st"
    by (intro init_subclass_nothing_given) blast
next
  fix key v
  assume a: "key \<in> set recognized_keywords \<and> map_of kwargs key = Some v \<and> stays_false st cls v"
  then have m: "map_of kwargs key = Some v" and sf: "stays_false st cls v" by blast+
  from m sf have "init_subclass st cls (filter (\<lambda>kv. fst kv \<noteq> key) kwargs) = init_subclass st cls kwargs"
    by (rule init_subclass_drop)
  then show "init_subclass st cls kwargs
              = init_subclass st cls (filter (\<lambda>kv. fst kv \<noteq> key) kwargs)"
    by (rule sym)
qed

text \<open>
  C10 at the keywords of the claim, \<^verbatim>\<open>spider_key=""\<close>, \<^verbatim>\<open>brand_wikidata=""\<close>,
  \<^verbatim>\<open>operator_wikidata=None\<close>, \<^verbatim>\<open>extracted_attributes={}\<close>, where the store stays as it
  was; and at an empty \<^verbatim>\<open>spider_key\<close> and an empty \<^verbatim>\<open>extracted_attributes\<close> beside a true
  \<^verbatim>\<open>brand_wikidata\<close>, where the declaration does what it does with the keyword
  \<^verbatim>\<open>brand_wikidata\<close> alone: the class is not renamed, and its namespace gets the entry
  \<^verbatim>\<open>item_attributes\<close> and nothing else.
\<close>

theorem falsy_metadata_ignored_witness:
  "init_subclass declaration_state 3 falsy_kwargs = Inr declaration_state
   \<and> stays_false declaration_state 3 (PStr [])
   \<and> stays_false declaration_state 3 (PDict 2)
   \<and> init_subclass declaration_state 3 empty_extracted_kwargs
       = init_subclass declaration_state 3
           (filter (\<lambda>kv. fst kv \<noteq> ''spider_key'') empty_extracted_kwargs)
   \<and> init_subclass declaration_state 3 empty_extracted_kwargs
       = init_subclass declaration_state 3
           (filter (\<lambda>kv. fst kv \<noteq> ''extracted_attributes'') empty_extracted_kwargs)
   \<and> (case init_subclass declaration_state 3 empty_extracted_kwargs of
         Inl e \<Rightarrow> None
       | Inr st' \<Rightarrow> Some (cls_dict (classes st' 3), heap st' 3))
       = Some ([(''name'', PStr ''old_name''), (''item_attributes'', PDict 3)],
               [(''brand_wikidata'', PStr ''Q1'')])"
proof -
  have 1: "\<forall>key v. key \<in> set enrichment_keywords \<and> map_of falsy_kwargs key = Some v
             \<longrightarrow> \<not> truthy declaration_state v"
    by (auto simp: enrichment_keywords_def falsy_kwargs_def declaration_state_def)
  have s1: "stays_false declaration_state 3 (PStr [])"
    by (simp add: stays_false_def)
  have s2: "stays_false declaration_state 3 (PDict 2)"
    by code_simp
  have 2: "''spider_key'' \<in> set recognized_keywords
           \<and> map_of empty_extracted_kwargs ''spider_key'' = Some (PStr [])
           \<and> stays_false declaration_state 3 (PStr [])"
    using s1 by (simp add: recognized_keywords_def empty_extracted_kwargs_def)
  have 3: "''extracted_attributes'' \<in> set recognized_keywords
           \<and> map_of empty_extracted_kwargs ''extracted_attributes'' = Some (PDict 2)
           \<and> stays_false declaration_state 3 (PDict 2)"
    using s2 by (simp add: recognized_keywords_def empty_extracted_kwargs_def)
  from falsy_metadata_ignored [of falsy_kwargs declaration_state 3] 1
  have a: "init_subclass declaration_state 3 falsy_kwargs = Inr declaration_state" by blast
  from falsy_metadata_ignored [of empty_extracted_kwargs declaration_state 3] 2
  have b: "init_subclass declaration_state 3 empty_extracted_kwargs
       = init_subclass declaration_state 3
           (filter (\<lambda>kv. fst kv \<noteq> ''spider_key'') empty_extracted_kwargs)"
    by blast
  from falsy_metadata_ignored [of empty_extracted_kwargs declaration_state 3] 3
  have c: "init_subclass declaration_state 3 empty_extracted_kwargs
       = init_subclass declaration_state 3
           (filter (\<lambda>kv. fst kv \<noteq> ''extracted_attributes'') empty_extracted_kwargs)"
    by blast
  have d: "(case init_subclass declaration_state 3 empty_extracted_kwargs of
         Inl e \<Rightarrow> None
       | Inr st' \<Rightarrow> Some (cls_dict (classes st' 3), heap st' 3))
       = Some ([(''name'', PStr ''old_name''), (''item_attributes'', PDict 3)],
               [(''brand_wikidata'', PStr ''Q1'')])"
    by code_simp
  from a s1 s2 b c d show ?thesis by (intro conjI)
qed

text \<open>
  C10 as stated does not hold of an empty dictionary that the hook itself fills. At the
  declaration \<^verbatim>\<open>class LaterSpider(ExampleLocatorSpider, brand_wikidata="Q1",
  extracted_attributes=ExampleLocatorSpider.item_attributes)\<close>, where the inherited
  dictionary is empty, the keyword \<^verbatim>\<open>extracted_attributes\<close> is bound to a false value;
  line 139 writes \<^verbatim>\<open>brand_wikidata\<close> to that dictionary before line 153 tests it, so the
  loop of line 154 runs and sets the attribute \<^verbatim>\<open>brand_wikidata\<close> of the class. Without
  the keyword \<^verbatim>\<open>extracted_attributes\<close> the class gets no such attribute.
\<close>

theorem aliased_empty_mapping_not_ignored:
  "map_of aliased_kwargs ''extracted_attributes'' = Some (PDict 0)
   \<and> \<not> truthy aliased_state (PDict 0)
   \<and> (case init_subclass aliased_state 4 aliased_kwargs of
         Inl e \<Rightarrow> None
       | Inr st' \<Rightarrow> Some (map_of (cls_dict (classes st' 4)) ''brand_wikidata''))
       = Some (Some (PStr ''Q1''))
   \<and> (case init_subclass aliased_state 4
              (filter (\<lambda>kv. fst kv \<noteq> ''extracted_attributes'') aliased_kwargs) of
         Inl e \<Rightarrow> None
       | Inr st' \<Rightarrow> Some (map_of (cls_dict (classes st' 4)) ''brand_wikidata''))
       = Some None"
  by code_simp
section \<open>Claims on the protocols\<close>

text \<open>
  Claim C6. For every response, the default \<^verbatim>\<open>storefinder_exists\<close> returns \<^verbatim>\<open>False\<close> (not
  detected) and the default \<^verbatim>\<open>extract_spider_attributes\<close> returns the empty dictionary
  (complete, nothing extracted). Neither result is an exception, and neither depends on
  anything but the argument (here not even on the argument), so a second call returns
  the same result.
\<close>

theorem default_protocol_results:
  "storefinder_exists response = Verdict False
   \<and> extract_spider_attributes response = Attributes []
   \<and> storefinder_exists response = storefinder_exists response'
   \<and> extract_spider_attributes response = extract_spider_attributes response'"
  by (simp add: storefinder_exists_def extract_spider_attributes_def)

text \<open>
  Claim C7. For every detection chain of length \<open>N \<ge> 1\<close>, given as the list of the results
  of its steps (each step but the first is the continuation that the request before it
  names, called with the response to that request): every step but the last returned a
  pending request; if the last step returns \<^verbatim>\<open>Detected\<close>, the chain returns \<^verbatim>\<open>Detected\<close>;
  if it returns \<^verbatim>\<open>NotDetected\<close>, the chain returns \<^verbatim>\<open>NotDetected\<close>; and the chain returns
  a result only when some step returned that boolean verdict. The driver of the chain
  is modelled from the specification.
\<close>

theorem detection_chain_verdicts:
  "(chain_results methods dispatch ds \<and> last ds = Verdict True \<longrightarrow>
      detection_chain methods dispatch (hd ds) = Some True)
   \<and> (chain_results methods dispatch ds \<and> last ds = Verdict False \<longrightarrow>
      detection_chain methods dispatch (hd ds) = Some False)
   \<and> (chain_results methods dispatch ds \<longrightarrow>
      (\<forall>i. i < length ds - 1 \<longrightarrow> (\<exists>rq. ds ! i = DetectionRequest rq)))
   \<and> (detection_chain methods dispatch d = Some b \<longrightarrow>
      (\<exists>ds'. chain_results methods dispatch ds' \<and> hd ds' = d \<and> last ds' = Verdict b))"
proof (intro conjI impI allI)
  assume "chain_results methods dispatch ds \<and> last ds = Verdict True"
  then show "detection_chain methods dispatch (hd ds) = Some True"
    by (simp add: chain_results_def detection_chain_along detection_chain_verdict)
next
  assume "chain_results methods dispatch ds \<and> last ds = Verdict False"
  then show "detection_chain methods dispatch (hd ds) = Some False"
    by (simp add: chain_results_def detection_chain_along detection_chain_verdict)
next
  fix i assume "chain_results methods dispatch ds" and "i < length ds - 1"
  then show "\<exists>rq. ds ! i = DetectionRequest rq" by (rule chain_results_pending)
next
  assume "detection_chain methods dispatch d = Some b"
  then show "\<exists>ds'. chain_results methods dispatch ds' \<and> hd ds' = d \<and> last ds' = Verdict b"
    by (rule detection_chain_only_verdict)
qed

text \<open>
  C7 at a chain of three steps that ends in \<^verbatim>\<open>Detected\<close>, and at the chain of one step
  that the default \<^verbatim>\<open>storefinder_exists\<close> makes.
\<close>

theorem detection_chain_verdicts_witness:
  "chain_results example_methods example_dispatch
     [DetectionRequest page_request, DetectionRequest api_request, Verdict True]
   \<and> detection_chain example_methods example_dispatch (DetectionRequest page_request) = Some True
   \<and> chain_results example_methods example_dispatch
       [storefinder_exists \<lparr>resp_url = [], resp_body = [], resp_meta = []\<rparr>]
   \<and> detection_chain example_methods example_dispatch
       (storefinder_exists \<lparr>resp_url = [], resp_body = [], resp_meta = []\<rparr>) = Some False"
proof -
  let ?ds = "[DetectionRequest page_request, DetectionRequest api_request, Verdict True]"
  let ?d0 = "storefinder_exists \<lparr>resp_url = [], resp_body = [], resp_meta = []\<rparr>"
  have c: "chain_results example_methods example_dispatch ?ds"
    by (simp add: chain_results_def page_request_def api_request_def example_methods_def
          example_dispatch_def)
  have c0: "chain_results example_methods example_dispatch [?d0]"
    by (simp add: chain_results_def)
  have l0: "last [?d0] = Verdict False" by (simp add: storefinder_exists_def)
  from detection_chain_verdicts [of example_methods example_dispatch ?ds] c
  have r: "detection_chain example_methods example_dispatch (DetectionRequest page_request) = Some True"
    by simp
  from detection_chain_verdicts [of example_methods example_dispatch "[?d0]"] c0 l0
  have r0: "detection_chain example_methods example_dispatch ?d0 = Some False"
    by simp
  from c r c0 r0 show ?thesis by blast
qed


end
